theory Spec2Isabelle
  imports Complex_Main "HOL-Library.Word"
begin

section \<open>JavaScript values used by the serialization core\<close>

text \<open>
  A JavaScript string is a sequence of 16-bit code units. String literals of the source
  are ASCII and are written \<open>js ''...''\<close>.
\<close>

type_synonym jsstring = "16 word list"

definition js :: "string \<Rightarrow> jsstring" where
  "js s = map (\<lambda>c. of_nat (of_char c)) s"

text \<open>
  A JavaScript \<open>number\<close>. A finite double is represented by the real number it denotes
  (every double is a real, so a statement proved for every \<open>Finite r\<close> holds for every
  finite double). \<open>-0\<close> is identified with \<open>0\<close>: every operation modelled below
  (comparison, truthiness, \<open>Math.round\<close>, the integer conversions) treats them alike.
\<close>

datatype number = Finite real | PosInfinity | NegInfinity | NaN

text \<open>The relational operators \<open><\<close> and \<open><=\<close> on numbers: false as soon as one side is NaN.\<close>

fun number_lt :: "number \<Rightarrow> number \<Rightarrow> bool" where
  "number_lt NaN _ = False"
| "number_lt _ NaN = False"
| "number_lt (Finite a) (Finite b) = (a < b)"
| "number_lt (Finite a) PosInfinity = True"
| "number_lt (Finite a) NegInfinity = False"
| "number_lt PosInfinity _ = False"
| "number_lt NegInfinity NegInfinity = False"
| "number_lt NegInfinity _ = True"

definition number_le :: "number \<Rightarrow> number \<Rightarrow> bool" where
  "number_le a b = (number_lt a b \<or> (a = b \<and> a \<noteq> NaN))"

definition Number_isNaN :: "number \<Rightarrow> bool" where
  "Number_isNaN x = (x = NaN)"

text \<open>\<open>Math.round\<close>: the nearest integer, ties towards \<open>+\<infinity>\<close>; NaN and the infinities are returned as they are.\<close>

fun Math_round :: "number \<Rightarrow> number" where
  "Math_round (Finite r) = Finite (of_int \<lfloor>r + 1 / 2\<rfloor>)"
| "Math_round x = x"

text \<open>Truthiness of a number (\<open>!!x\<close>): false for \<open>0\<close> and NaN.\<close>

definition number_truthy :: "number \<Rightarrow> bool" where
  "number_truthy x = (x \<noteq> Finite 0 \<and> x \<noteq> NaN)"

datatype error = Error jsstring | TypeError | RangeError | SyntaxError

text \<open>The type \<open>Json\<close> of the source.\<close>

datatype json =
    JNull
  | JBoolean bool
  | JNumber number
  | JString jsstring
  | JArray "json list"
  | JObject "(jsstring \<times> json) list"

text \<open>\<open>!!json\<close>\<close>

fun truthy :: "json \<Rightarrow> bool" where
  "truthy JNull = False"
| "truthy (JBoolean b) = b"
| "truthy (JNumber n) = number_truthy n"
| "truthy (JString s) = (s \<noteq> [])"
| "truthy (JArray _) = True"
| "truthy (JObject _) = True"

text \<open>
  \<open>BigInt(x)\<close> for a number \<open>x\<close>: a RangeError unless \<open>x\<close> is an integral number.
\<close>

fun BigInt_of_number :: "number \<Rightarrow> error + int" where
  "BigInt_of_number (Finite r) = (if of_int \<lfloor>r\<rfloor> = r then Inr \<lfloor>r\<rfloor> else Inl RangeError)"
| "BigInt_of_number _ = Inl RangeError"

text \<open>\<open>bigint.toString()\<close>: the decimal digits, with a leading minus sign for a negative value.\<close>

function digits :: "nat \<Rightarrow> jsstring" where
  "digits n = (if n < 10 then [of_nat (48 + n)] else digits (n div 10) @ [of_nat (48 + n mod 10)])"
  by pat_completeness auto
termination
  by (relation "measure id") auto

declare digits.simps [simp del]

definition BigInt_toString :: "int \<Rightarrow> jsstring" where
  "BigInt_toString x = (if x < 0 then 45 # digits (nat (- x)) else digits (nat x))"

section \<open>Timestamp\<close>

datatype Timestamp = Timestamp (unixMillis: number)

definition Timestamp_MIN :: Timestamp where
  "Timestamp_MIN = Timestamp (Finite (- 8640000000000000))"

definition Timestamp_MAX :: Timestamp where
  "Timestamp_MAX = Timestamp (Finite 8640000000000000)"

definition Timestamp_UNIX_EPOCH :: Timestamp where
  "Timestamp_UNIX_EPOCH = Timestamp (Finite 0)"

definition fromUnixMillis :: "number \<Rightarrow> error + Timestamp" where
  "fromUnixMillis x =
     (if number_le x (unixMillis Timestamp_MIN) then Inr Timestamp_MIN
      else if number_lt x (unixMillis Timestamp_MAX) then Inr (Timestamp (Math_round x))
      else if Number_isNaN x then Inl (Error (js ''Cannot construct Timestamp from NaN''))
      else Inr Timestamp_MAX)"

section \<open>Primitive serializers: JSON side\<close>

subsection \<open>BoolSerializer\<close>

definition BoolSerializer_fromJson :: "json \<Rightarrow> bool" where
  "BoolSerializer_fromJson j = (truthy j \<and> j \<noteq> JString (js ''0''))"

subsection \<open>Int64Serializer and Uint64Serializer\<close>

definition MIN_INT64 :: int where
  "MIN_INT64 = - 9223372036854775808"

definition MAX_INT64 :: int where
  "MAX_INT64 = 9223372036854775807"

definition MAX_UINT64 :: int where
  "MAX_UINT64 = 18446744073709551615"

text \<open>
  \<open>Number(b)\<close> for a bigint \<open>b\<close> with \<open>|b| \<le> 2^53 - 1\<close> is exact; the two \<open>toJson\<close> methods
  call it in that range only.
\<close>

definition Int64Serializer_toJson :: "int \<Rightarrow> json" where
  "Int64Serializer_toJson input =
     (if - 9007199254740991 \<le> input \<and> input \<le> 9007199254740991
      then JNumber (Finite (of_int input))
      else let s = BigInt_toString input in
        JString (if length s \<le> 18 then s
                 else if input < MIN_INT64 then BigInt_toString MIN_INT64
                 else if input < MAX_INT64 then s
                 else BigInt_toString MAX_INT64))"

definition Uint64Serializer_toJson :: "int \<Rightarrow> json" where
  "Uint64Serializer_toJson input =
     (if input \<le> 9007199254740991
      then (if input \<le> 0 then JNumber (Finite 0) else JNumber (Finite (of_int input)))
      else JString (if MAX_UINT64 < input then BigInt_toString MAX_UINT64
                    else BigInt_toString input))"


section \<open>Numeric conversions of the platform\<close>

type_synonym byte = "8 word"

text \<open>
  The integer a \<open>DataView\<close> setter or a bitwise operator derives from a number before
  reducing it modulo the width: NaN and the infinities give 0, any other value is
  truncated towards zero.
\<close>

fun integral :: "number \<Rightarrow> int" where
  "integral (Finite r) = (if r < 0 then - \<lfloor>- r\<rfloor> else \<lfloor>r\<rfloor>)"
| "integral _ = 0"

text \<open>\<open>x | 0\<close>\<close>

definition ToInt32 :: "number \<Rightarrow> number" where
  "ToInt32 x = Finite (of_int (sint (word_of_int (integral x) :: 32 word)))"

text \<open>
  \<open>Number(b)\<close> for a bigint: exact up to 53 significant bits, otherwise rounded to the
  nearest double (ties to even).
\<close>

function bitlen :: "nat \<Rightarrow> nat" where
  "bitlen n = (if n = 0 then 0 else Suc (bitlen (n div 2)))"
  by pat_completeness auto
termination
  by (relation "measure id") auto

declare bitlen.simps [simp del]

definition Number_of_BigInt :: "int \<Rightarrow> number" where
  "Number_of_BigInt x =
     (let a = nat \<bar>x\<bar>; e = bitlen a - 53; q = a div 2 ^ e; r = a mod 2 ^ e;
          q' = (if 2 * r > 2 ^ e \<or> (2 * r = 2 ^ e \<and> odd q) then q + 1 else q);
          m = q' * 2 ^ e
      in if m \<ge> 2 ^ 1024 then (if x < 0 then NegInfinity else PosInfinity)
         else Finite (of_int (sgn x * int m)))"

text \<open>A value that is a \<open>number\<close> or a \<open>bigint\<close>, as returned by \<open>decodeNumber\<close>.\<close>

datatype numeric = Num number | Big int

fun Number :: "numeric \<Rightarrow> number" where
  "Number (Num x) = x"
| "Number (Big b) = Number_of_BigInt b"

text \<open>
  Built-in conversions of the JavaScript platform that the library calls and that are
  not defined in the repository. They are parameters of the model; every theorem holds
  for any choice of them.
\<close>

record platform =
  StringToNumber :: "jsstring \<Rightarrow> number"
  StringToBigInt :: "jsstring \<Rightarrow> int option"
  atob :: "jsstring \<Rightarrow> jsstring option"
  parseInt :: "jsstring \<Rightarrow> nat \<Rightarrow> number"
  entryToString :: "jsstring \<Rightarrow> json \<Rightarrow> jsstring"
  setFloat32 :: "number \<Rightarrow> 32 word"
  setFloat64 :: "number \<Rightarrow> 64 word"
  getFloat32 :: "32 word \<Rightarrow> number"
  getFloat64 :: "64 word \<Rightarrow> number"
  TextDecoder_decode :: "byte list \<Rightarrow> jsstring"
  JSON_stringify :: "json \<Rightarrow> jsstring \<Rightarrow> jsstring"

text \<open>Little-endian byte sequences, as the \<open>DataView\<close> setters called with \<open>true\<close> store them.\<close>

definition le16 :: "int \<Rightarrow> byte list" where
  "le16 v = [word_of_int v, word_of_int (v div 256)]"

definition le32 :: "int \<Rightarrow> byte list" where
  "le32 v = [word_of_int v, word_of_int (v div 256), word_of_int (v div 65536),
             word_of_int (v div 16777216)]"

definition le64 :: "int \<Rightarrow> byte list" where
  "le64 v = le32 v @ le32 (v div 4294967296)"

text \<open>The unsigned value of a little-endian byte sequence (the \<open>DataView\<close> getters).\<close>

fun le_value :: "byte list \<Rightarrow> int" where
  "le_value [] = 0"
| "le_value (b # bs) = uint b + 256 * le_value bs"

section \<open>ByteString\<close>

text \<open>
  A \<open>ByteString\<close> is immutable; it is modelled by the list of its bytes.
  \<open>sliceOf\<close> on a byte string or an array buffer; \<open>end\<close> is optional.
\<close>

definition sliceOf :: "byte list \<Rightarrow> int \<Rightarrow> int option \<Rightarrow> byte list" where
  "sliceOf input start end =
     (let byteLength = int (length input);
          start = (if start < 0 then 0 else start);
          end = (case end of None \<Rightarrow> byteLength
                 | Some e \<Rightarrow> if e > byteLength then byteLength else e)
      in if end \<le> start then []
         else take (nat (end - start)) (drop (nat start) input))"

section \<open>InputStream and the number decoder\<close>

record InputStream =
  in_buffer :: "byte list"
  keepUnrecognizedFields :: bool
  in_offset :: nat

text \<open>
  Errors. \<open>Diverges\<close> is not an exception: it records that a call does not return.
  \<open>OutsideModel\<close> marks input that the TypeScript types or the wire grammar exclude
  (an ill-typed value, or a length or count given on the wire by a negative, fractional
  or bigint number); the source goes on there with a cursor that moves backwards or to a
  fractional offset, which this model does not follow. No theorem below is stated at
  such an input.
\<close>

datatype failure = Throws error | Diverges | OutsideModel

definition new_InputStream :: "byte list \<Rightarrow> bool \<Rightarrow> InputStream" where
  "new_InputStream bytes keep = \<lparr>in_buffer = bytes, keepUnrecognizedFields = keep, in_offset = 0\<rparr>"

text \<open>\<open>dataView.getUint8(offset)\<close>: a RangeError outside of the buffer.\<close>

definition getUint8 :: "InputStream \<Rightarrow> nat \<Rightarrow> failure + nat" where
  "getUint8 s pos =
     (if pos < length (in_buffer s) then Inr (unat (in_buffer s ! pos))
      else Inl (Throws RangeError))"

definition readUint8 :: "InputStream \<Rightarrow> failure + nat \<times> InputStream" where
  "readUint8 s =
     (case getUint8 s (in_offset s) of
        Inl e \<Rightarrow> Inl e
      | Inr b \<Rightarrow> Inr (b, s\<lparr>in_offset := in_offset s + 1\<rparr>))"

text \<open>
  The pattern \<open>s.dataView.getXxx((s.offset += n) - n, true)\<close>: the \<open>n\<close> bytes at the
  cursor, which moves past them; a RangeError when fewer than \<open>n\<close> bytes are left.
\<close>

definition readBytes :: "nat \<Rightarrow> InputStream \<Rightarrow> failure + byte list \<times> InputStream" where
  "readBytes n s =
     (if in_offset s + n \<le> length (in_buffer s)
      then Inr (take n (drop (in_offset s) (in_buffer s)), s\<lparr>in_offset := in_offset s + n\<rparr>)
      else Inl (Throws RangeError))"

text \<open>The table \<open>DECODE_NUMBER_FNS\<close>, indexed by \<open>wire - 232\<close>.\<close>

definition DECODE_NUMBER_FNS ::
  "platform \<Rightarrow> nat \<Rightarrow> InputStream \<Rightarrow> failure + numeric \<times> InputStream" where
  "DECODE_NUMBER_FNS P i s =
     (if i = 0 then
        (case readBytes 2 s of Inl e \<Rightarrow> Inl e
         | Inr (bs, s') \<Rightarrow> Inr (Num (Finite (of_int (le_value bs))), s'))
      else if i = 1 then
        (case readBytes 4 s of Inl e \<Rightarrow> Inl e
         | Inr (bs, s') \<Rightarrow> Inr (Num (Finite (of_int (le_value bs))), s'))
      else if i = 2 then
        (case readBytes 8 s of Inl e \<Rightarrow> Inl e
         | Inr (bs, s') \<Rightarrow> Inr (Big (le_value bs), s'))
      else if i = 3 then
        (case readUint8 s of Inl e \<Rightarrow> Inl e
         | Inr (b, s') \<Rightarrow> Inr (Num (Finite (of_int (int b - 256))), s'))
      else if i = 4 then
        (case readBytes 2 s of Inl e \<Rightarrow> Inl e
         | Inr (bs, s') \<Rightarrow> Inr (Num (Finite (of_int (le_value bs - 65536))), s'))
      else if i = 5 then
        (case readBytes 4 s of Inl e \<Rightarrow> Inl e
         | Inr (bs, s') \<Rightarrow>
             Inr (Num (Finite (of_int (sint (word_of_int (le_value bs) :: 32 word)))), s'))
      else if i = 6 \<or> i = 7 then
        (case readBytes 8 s of Inl e \<Rightarrow> Inl e
         | Inr (bs, s') \<Rightarrow> Inr (Big (sint (word_of_int (le_value bs) :: 64 word)), s'))
      else if i = 8 then
        (case readBytes 4 s of Inl e \<Rightarrow> Inl e
         | Inr (bs, s') \<Rightarrow> Inr (Num (getFloat32 P (word_of_int (le_value bs))), s'))
      else if i = 9 then
        (case readBytes 8 s of Inl e \<Rightarrow> Inl e
         | Inr (bs, s') \<Rightarrow> Inr (Num (getFloat64 P (word_of_int (le_value bs))), s'))
      else Inl (Throws TypeError))"

definition decodeNumber :: "platform \<Rightarrow> InputStream \<Rightarrow> failure + numeric \<times> InputStream" where
  "decodeNumber P s =
     (case readUint8 s of
        Inl e \<Rightarrow> Inl e
      | Inr (wire, s') \<Rightarrow>
          if wire < 232 then Inr (Num (Finite (of_nat wire)), s')
          else DECODE_NUMBER_FNS P (wire - 232) s')"

definition decodeBigInt :: "platform \<Rightarrow> InputStream \<Rightarrow> failure + int \<times> InputStream" where
  "decodeBigInt P s =
     (case decodeNumber P s of
        Inl e \<Rightarrow> Inl e
      | Inr (Big b, s') \<Rightarrow> Inr (b, s')
      | Inr (Num x, s') \<Rightarrow>
          (case BigInt_of_number (Math_round x) of
             Inl e \<Rightarrow> Inl (Throws e)
           | Inr b \<Rightarrow> Inr (b, s')))"

text \<open>
  A length or count read from the wire and used as a \<open>number\<close>
  (\<open>decodeNumber(stream) as number\<close>): the model follows the source for a
  non-negative integer.
\<close>

fun asLength :: "numeric \<Rightarrow> nat option" where
  "asLength (Num (Finite r)) = (if 0 \<le> r \<and> of_int \<lfloor>r\<rfloor> = r then Some (nat \<lfloor>r\<rfloor>) else None)"
| "asLength _ = None"


section \<open>OutputStream\<close>

text \<open>
  The output stream owns a current \<open>ArrayBuffer\<close> and a list \<open>pieces\<close> of
  \<open>Uint8Array\<close> views on the buffers it has filled before. A view shares the memory of
  its buffer, and two methods write through a reference taken before a new buffer is
  allocated, so the buffers live in an explicit store: \<open>buffers\<close> holds every buffer
  allocated so far, \<open>out_buffer\<close> is the index of the current one (\<open>this.buffer\<close>, which
  is also \<open>this.dataView.buffer\<close>), and a piece \<open>(b, n)\<close> is the view
  \<open>new Uint8Array(buffers[b], 0, n)\<close>.
\<close>

record OutputStream =
  buffers :: "byte list list"
  out_buffer :: nat
  out_offset :: nat
  pieces :: "(nat \<times> nat) list"
  byteLength :: nat

definition new_OutputStream :: OutputStream where
  "new_OutputStream =
     \<lparr>buffers = [replicate 128 0], out_buffer = 0, out_offset = 0, pieces = [], byteLength = 0\<rparr>"

text \<open>
  Storing the bytes \<open>bs\<close> at position \<open>pos\<close> of a buffer (a \<open>DataView\<close> setter, or
  \<open>Uint8Array.set\<close>). The platform raises a RangeError when they do not fit; every call
  below is made with enough room (lemma \<open>reserve_props\<close> for the writers), and the model
  leaves the buffer unchanged otherwise.
\<close>

definition store :: "nat \<Rightarrow> byte list \<Rightarrow> byte list \<Rightarrow> byte list" where
  "store pos bs buf =
     (if pos + length bs \<le> length buf then take pos buf @ bs @ drop (pos + length bs) buf
      else buf)"

definition poke :: "nat \<Rightarrow> nat \<Rightarrow> byte list \<Rightarrow> OutputStream \<Rightarrow> OutputStream" where
  "poke b pos bs s = s\<lparr>buffers := (buffers s)[b := store pos bs (buffers s ! b)]\<rparr>"

text \<open>Adds the current buffer to \<open>pieces\<close>. Updates \<open>byteLength\<close> accordingly.\<close>

definition flush :: "OutputStream \<Rightarrow> OutputStream" where
  "flush s = s\<lparr>pieces := pieces s @ [(out_buffer s, out_offset s)],
               byteLength := byteLength s + out_offset s\<rparr>"

text \<open>
  Returns a data view with enough capacity for \<open>bytes\<close> more bytes. The test of the
  source, \<open>offset < buffer.byteLength - bytes\<close>, is written without the subtraction.
\<close>

definition reserve :: "nat \<Rightarrow> OutputStream \<Rightarrow> OutputStream" where
  "reserve bytes s =
     (if out_offset s + bytes < length (buffers s ! out_buffer s) then s
      else let s1 = flush s; lengthInBytes = max (byteLength s1) bytes
           in s1\<lparr>out_offset := 0,
                 buffers := buffers s1 @ [replicate lengthInBytes 0],
                 out_buffer := length (buffers s1)\<rparr>)"

text \<open>
  The writers \<open>writeUint8\<close> ... \<open>writeFloat64\<close> all have the shape
  \<open>const dataView = this.reserve(n); dataView.setXxx((this.offset += n) - n, value, true)\<close>.
  \<open>writeBytes n bs\<close> is that shape for the \<open>n\<close> bytes \<open>bs\<close> the setter stores.
\<close>

definition writeBytes :: "nat \<Rightarrow> byte list \<Rightarrow> OutputStream \<Rightarrow> OutputStream" where
  "writeBytes n bs s =
     (let s1 = reserve n s
      in (poke (out_buffer s1) (out_offset s1) bs s1)\<lparr>out_offset := out_offset s1 + n\<rparr>)"

definition writeUint8 :: "int \<Rightarrow> OutputStream \<Rightarrow> OutputStream" where
  "writeUint8 v = writeBytes 1 [word_of_int v]"

definition writeUint16 :: "int \<Rightarrow> OutputStream \<Rightarrow> OutputStream" where
  "writeUint16 v = writeBytes 2 (le16 v)"

definition writeUint32 :: "int \<Rightarrow> OutputStream \<Rightarrow> OutputStream" where
  "writeUint32 v = writeBytes 4 (le32 v)"

definition writeInt32 :: "int \<Rightarrow> OutputStream \<Rightarrow> OutputStream" where
  "writeInt32 v = writeBytes 4 (le32 v)"

definition writeUint64 :: "int \<Rightarrow> OutputStream \<Rightarrow> OutputStream" where
  "writeUint64 v = writeBytes 8 (le64 v)"

definition writeInt64 :: "int \<Rightarrow> OutputStream \<Rightarrow> OutputStream" where
  "writeInt64 v = writeBytes 8 (le64 v)"

definition writeFloat32 :: "platform \<Rightarrow> number \<Rightarrow> OutputStream \<Rightarrow> OutputStream" where
  "writeFloat32 P x = writeBytes 4 (le32 (uint (setFloat32 P x)))"

definition writeFloat64 :: "platform \<Rightarrow> number \<Rightarrow> OutputStream \<Rightarrow> OutputStream" where
  "writeFloat64 P x = writeBytes 8 (le64 (uint (setFloat64 P x)))"

subsection \<open>UTF-8\<close>

text \<open>
  \<open>TextEncoder.encodeInto(string, target)\<close> writes the UTF-8 encoding of as many whole
  code points of \<open>string\<close> as fit in \<open>target\<close> and reports the code units read and the
  bytes written. A surrogate pair is one code point of four bytes; an unpaired surrogate
  is encoded as U+FFFD.
\<close>

definition utf8 :: "nat \<Rightarrow> byte list" where
  "utf8 cp =
     (if cp < 128 then [of_nat cp]
      else if cp < 2048 then [of_nat (192 + cp div 64), of_nat (128 + cp mod 64)]
      else if cp < 65536 then
        [of_nat (224 + cp div 4096), of_nat (128 + cp div 64 mod 64), of_nat (128 + cp mod 64)]
      else
        [of_nat (240 + cp div 262144), of_nat (128 + cp div 4096 mod 64),
         of_nat (128 + cp div 64 mod 64), of_nat (128 + cp mod 64)])"

definition is_high_surrogate :: "16 word \<Rightarrow> bool" where
  "is_high_surrogate u = (55296 \<le> unat u \<and> unat u < 56320)"

definition is_low_surrogate :: "16 word \<Rightarrow> bool" where
  "is_low_surrogate u = (56320 \<le> unat u \<and> unat u < 57344)"

text \<open>The first code point of a non-empty string, with the number of code units it takes.\<close>

fun codePoint :: "jsstring \<Rightarrow> nat \<times> nat" where
  "codePoint (h # l # _) =
     (if is_high_surrogate h \<and> is_low_surrogate l
      then (2, 65536 + (unat h - 55296) * 1024 + (unat l - 56320))
      else if is_high_surrogate h \<or> is_low_surrogate h then (1, 65533)
      else (1, unat h))"
| "codePoint [u] = (if is_high_surrogate u \<or> is_low_surrogate u then (1, 65533) else (1, unat u))"
| "codePoint [] = (0, 0)"

function encodeInto :: "jsstring \<Rightarrow> nat \<Rightarrow> nat \<times> byte list" where
  "encodeInto string room =
     (if string = [] then (0, [])
      else let (k, cp) = codePoint string; bs = utf8 cp
           in if length bs \<le> room
              then (let (read, written) = encodeInto (drop k string) (room - length bs)
                    in (k + read, bs @ written))
              else (0, []))"
  by pat_completeness auto
termination
proof (relation "measure (\<lambda>(string, room). length string)")
  show "wf (measure (\<lambda>(string, room). length string))" by simp
next
  fix string :: jsstring and room x k cp and bs :: "byte list"
  assume "string \<noteq> []" and "x = codePoint string" and "(k, cp) = x"
  then have "0 < k" by (cases string rule: codePoint.cases) (auto split: if_splits)
  with \<open>string \<noteq> []\<close>
  show "((drop k string, room - length bs), string, room) \<in> measure (\<lambda>(string, room). length string)"
    by simp
qed

declare encodeInto.simps [simp del]

text \<open>
  Encodes the given string to UTF-8 and writes the bytes to this stream. Returns the
  number of bytes written. The loop of the source does not return when a new buffer
  cannot hold the next code point; the result \<open>None\<close> stands for that.
\<close>

partial_function (option) putUtf8String_loop ::
  "jsstring \<Rightarrow> nat \<Rightarrow> OutputStream \<Rightarrow> (nat \<times> OutputStream) option" where
  "putUtf8String_loop string result s =
     (if string = [] then Some (result, s)
      else let (read, written) =
                 encodeInto string (length (buffers s ! out_buffer s) - out_offset s);
               s1 = (poke (out_buffer s) (out_offset s) written s)
                      \<lparr>out_offset := out_offset s + length written\<rparr>;
               string' = drop read string
           in if string' = [] then Some (result + length written, s1)
              else putUtf8String_loop string' (result + length written)
                     (reserve (length string' * 2) s1))"

definition putUtf8String :: "jsstring \<Rightarrow> OutputStream \<Rightarrow> (nat \<times> OutputStream) option" where
  "putUtf8String string s = putUtf8String_loop string 0 s"

text \<open>
  \<open>putBytes\<close>. \<open>buffer\<close> is read from the stream once, at the start, and both copies go
  to that buffer.
\<close>

definition putBytes :: "byte list \<Rightarrow> OutputStream \<Rightarrow> OutputStream" where
  "putBytes bytes s =
     (let buffer = out_buffer s;
          bytesLeftInCurrentBuffer = int (length (buffers s ! buffer)) - int (out_offset s);
          head = sliceOf bytes 0 (Some bytesLeftInCurrentBuffer);
          s1 = (poke buffer (out_offset s) head s)\<lparr>out_offset := out_offset s + length head\<rparr>;
          remainingBytes = length bytes - length head
      in if remainingBytes \<le> 0 then s1
         else let tail = sliceOf bytes (int remainingBytes) None;
                  s2 = reserve remainingBytes s1;
                  s3 = poke buffer (out_offset s2) tail s2
              in s3\<lparr>out_offset := out_offset s3 + remainingBytes\<rparr>)"

definition finalize :: "OutputStream \<Rightarrow> OutputStream" where
  "finalize s = flush s"

text \<open>
  \<open>toBuffer\<close> copies the pieces, one after the other, into a new buffer of
  \<open>byteLength\<close> bytes (which \<open>flush\<close> keeps equal to the total length of the pieces).
\<close>

definition toBuffer :: "OutputStream \<Rightarrow> byte list" where
  "toBuffer s = concat (map (\<lambda>(b, n). take n (buffers s ! b)) (pieces s))"

definition encodeUint32 :: "nat \<Rightarrow> OutputStream \<Rightarrow> failure + OutputStream" where
  "encodeUint32 len s =
     (if len < 232 then Inr (writeUint8 (int len) s)
      else if len < 65536 then Inr (writeUint16 (int len) (writeUint8 232 s))
      else if len < 4294967296 then Inr (writeUint32 (int len) (writeUint8 233 s))
      else Inl (Throws (Error (js ''max length exceeded''))))"

section \<open>The unused-field skipper\<close>

definition skip :: "nat \<Rightarrow> InputStream \<Rightarrow> InputStream" where
  "skip n s = s\<lparr>in_offset := in_offset s + n\<rparr>"

fun loopCount :: "numeric \<Rightarrow> nat option" where
  "loopCount (Num (Finite r)) = Some (nat \<lceil>r\<rceil>)"
| "loopCount (Num NaN) = Some 0"
| "loopCount (Num NegInfinity) = Some 0"
| "loopCount (Num PosInfinity) = None"
| "loopCount (Big b) = Some (nat b)"

definition remaining :: "InputStream \<Rightarrow> nat" where
  "remaining s = length (in_buffer s) - in_offset s"

lemma readUint8_Inr:
  "readUint8 s = Inr (b, s') \<Longrightarrow>
     in_offset s < length (in_buffer s) \<and> s' = s\<lparr>in_offset := in_offset s + 1\<rparr>"
  by (auto simp: readUint8_def getUint8_def split: if_splits sum.splits)

lemma readBytes_Inr:
  "readBytes n s = Inr (bs, s') \<Longrightarrow> s' = s\<lparr>in_offset := in_offset s + n\<rparr>"
  by (auto simp: readBytes_def split: if_splits)

lemma DECODE_NUMBER_FNS_mono:
  assumes "DECODE_NUMBER_FNS P i s = Inr (n, s')"
  shows "in_buffer s' = in_buffer s \<and> in_offset s \<le> in_offset s'"
proof -
  have rb: "\<And>k bs t. readBytes k s = Inr (bs, t) \<Longrightarrow> in_buffer t = in_buffer s \<and> in_offset s \<le> in_offset t"
    by (drule readBytes_Inr) simp
  have ru: "\<And>b t. readUint8 s = Inr (b, t) \<Longrightarrow> in_buffer t = in_buffer s \<and> in_offset s \<le> in_offset t"
    by (drule readUint8_Inr) simp
  consider "i = 0" | "i = 1" | "i = 2" | "i = 3" | "i = 4" | "i = 5" | "i = 6 \<or> i = 7" | "i = 8" | "i = 9" | "i > 9"
    by atomize_elim arith
  then show ?thesis
  proof cases
    case 1 with assms show ?thesis by (auto simp: DECODE_NUMBER_FNS_def split: sum.splits dest: rb)
  next
    case 2 with assms show ?thesis by (auto simp: DECODE_NUMBER_FNS_def split: sum.splits dest: rb)
  next
    case 3 with assms show ?thesis by (auto simp: DECODE_NUMBER_FNS_def split: sum.splits dest: rb)
  next
    case 4 with assms show ?thesis by (auto simp: DECODE_NUMBER_FNS_def split: sum.splits dest: ru)
  next
    case 5 with assms show ?thesis by (auto simp: DECODE_NUMBER_FNS_def split: sum.splits dest: rb)
  next
    case 6 with assms show ?thesis by (auto simp: DECODE_NUMBER_FNS_def split: sum.splits dest: rb)
  next
    case 7 with assms show ?thesis by (auto simp: DECODE_NUMBER_FNS_def split: sum.splits dest: rb)
  next
    case 8 with assms show ?thesis by (auto simp: DECODE_NUMBER_FNS_def split: sum.splits dest: rb)
  next
    case 9 with assms show ?thesis by (auto simp: DECODE_NUMBER_FNS_def split: sum.splits dest: rb)
  next
    case 10 with assms show ?thesis by (auto simp: DECODE_NUMBER_FNS_def)
  qed
qed

lemma decodeNumber_mono:
  assumes "decodeNumber P s = Inr (n, s')"
  shows "in_buffer s' = in_buffer s \<and> in_offset s < in_offset s'"
proof -
  from assms obtain wire s1 where r: "readUint8 s = Inr (wire, s1)"
    by (auto simp: decodeNumber_def split: sum.splits)
  from readUint8_Inr[OF r] have s1: "in_buffer s1 = in_buffer s" "in_offset s1 = in_offset s + 1"
    by auto
  show ?thesis
  proof (cases "wire < 232")
    case True
    with assms r s1 show ?thesis by (simp add: decodeNumber_def)
  next
    case False
    with assms r have "DECODE_NUMBER_FNS P (wire - 232) s1 = Inr (n, s')"
      by (simp add: decodeNumber_def)
    from DECODE_NUMBER_FNS_mono[OF this] s1 show ?thesis by simp
  qed
qed

function decodeUnused :: "platform \<Rightarrow> InputStream \<Rightarrow> failure + InputStream"
  and decodeUnused_times :: "platform \<Rightarrow> nat \<Rightarrow> InputStream \<Rightarrow> failure + InputStream" where
  "decodeUnused P s =
     (case readUint8 s of
        Inl e \<Rightarrow> Inl e
      | Inr (wire, s1) \<Rightarrow>
          if wire < 232 then Inr s1
          else let c = wire - 232 in
            if c = 0 \<or> c = 4 then Inr (skip 2 s1)
            else if c = 1 \<or> c = 5 \<or> c = 8 then Inr (skip 4 s1)
            else if c = 2 \<or> c = 6 \<or> c = 7 \<or> c = 9 then Inr (skip 8 s1)
            else if c = 3 then Inr (skip 1 s1)
            else if c = 11 \<or> c = 13 then
              (case decodeNumber P s1 of
                 Inl e \<Rightarrow> Inl e
               | Inr (n, s2) \<Rightarrow>
                   (case asLength n of None \<Rightarrow> Inl OutsideModel | Some len \<Rightarrow> Inr (skip len s2)))
            else if c = 15 \<or> c = 19 \<or> c = 20 \<or> c = 21 \<or> c = 22 then decodeUnused P s1
            else if c = 16 then decodeUnused_times P 2 s1
            else if c = 17 then decodeUnused_times P 3 s1
            else if c = 18 then
              (case decodeNumber P s1 of
                 Inl e \<Rightarrow> Inl e
               | Inr (n, s2) \<Rightarrow>
                   (case loopCount n of None \<Rightarrow> Inl OutsideModel
                    | Some k \<Rightarrow> decodeUnused_times P k s2))
            else Inr s1)"
| "decodeUnused_times P n s =
     (if n = 0 then Inr s
      else case decodeUnused P s of
             Inl e \<Rightarrow> Inl e
           | Inr s' \<Rightarrow> decodeUnused_times P (n - 1) s')"
  by pat_completeness auto


termination
proof -
  have mono:
    "decodeUnused_decodeUnused_times_dom (Inl (P, s)) \<Longrightarrow> decodeUnused P s = Inr s' \<Longrightarrow>
       in_buffer s' = in_buffer s \<and> in_offset s < in_offset s'"
    "decodeUnused_decodeUnused_times_dom (Inr (P, n, s)) \<Longrightarrow> decodeUnused_times P n s = Inr s'' \<Longrightarrow>
       in_buffer s'' = in_buffer s \<and> in_offset s \<le> in_offset s''"
    for P s s' n s''
  proof (induction P s and P n s arbitrary: s' and s'' rule: decodeUnused_decodeUnused_times.pinduct)
    case (1 P s)
    note ps = decodeUnused.psimps[OF "1.hyps"]
    from "1.prems" obtain wire s1 where r: "readUint8 s = Inr (wire, s1)"
      by (auto simp: ps split: sum.splits)
    from readUint8_Inr[OF r] have s1: "in_buffer s1 = in_buffer s" "in_offset s1 = in_offset s + 1"
      by auto
    show ?case
    proof (cases "wire < 232")
      case True
      with "1.prems" r s1 show ?thesis by (simp add: ps)
    next
      case False
      define c where "c = wire - 232"
      have c: "wire - 232 = c" by (simp add: c_def)
      consider (skip) "c \<in> {0,4,1,5,8,2,6,7,9,3}" | (len) "c = 11 \<or> c = 13"
        | (one) "c = 15 \<or> c = 19 \<or> c = 20 \<or> c = 21 \<or> c = 22" | (two) "c = 16" | (three) "c = 17"
        | (many) "c = 18" | (other) "c \<notin> {0,4,1,5,8,2,6,7,9,3,11,13,15,19,20,21,22,16,17,18}"
        by blast
      then show ?thesis
      proof cases
        case skip
        with "1.prems" r False s1 show ?thesis
          by (auto simp: ps skip_def c Let_def split: if_splits)
      next
        case len
        with "1.prems" r False obtain n s2 k where
          d: "decodeNumber P s1 = Inr (n, s2)" and s': "s' = skip k s2"
          by (auto simp: ps c Let_def split: if_splits sum.splits option.splits)
        from decodeNumber_mono[OF d] s1 s' show ?thesis by (simp add: skip_def)
      next
        case one
        with "1.prems" r False have d: "decodeUnused P s1 = Inr s'"
          by (auto simp: ps c Let_def split: if_splits)
        from one have "\<not> (c = 0 \<or> c = 4)" "\<not> (c = 1 \<or> c = 5 \<or> c = 8)" 
          "\<not> (c = 2 \<or> c = 6 \<or> c = 7 \<or> c = 9)" "c \<noteq> 3" "\<not> (c = 11 \<or> c = 13)" by auto
        from "1.IH"(1)[OF r refl False c[symmetric] this one d] s1
        show ?thesis by simp
      next
        case two
        with "1.prems" r False have d: "decodeUnused_times P 2 s1 = Inr s'"
          by (auto simp: ps c Let_def split: if_splits)
        from two have "\<not> (c = 0 \<or> c = 4)" "\<not> (c = 1 \<or> c = 5 \<or> c = 8)" 
          "\<not> (c = 2 \<or> c = 6 \<or> c = 7 \<or> c = 9)" "c \<noteq> 3" "\<not> (c = 11 \<or> c = 13)" 
          "\<not> (c = 15 \<or> c = 19 \<or> c = 20 \<or> c = 21 \<or> c = 22)" by auto
        from "1.IH"(2)[OF r refl False c[symmetric] this two d] s1
        show ?thesis by simp
      next
        case three
        with "1.prems" r False have d: "decodeUnused_times P 3 s1 = Inr s'"
          by (auto simp: ps c Let_def split: if_splits)
        from three have "\<not> (c = 0 \<or> c = 4)" "\<not> (c = 1 \<or> c = 5 \<or> c = 8)" 
          "\<not> (c = 2 \<or> c = 6 \<or> c = 7 \<or> c = 9)" "c \<noteq> 3" "\<not> (c = 11 \<or> c = 13)" 
          "\<not> (c = 15 \<or> c = 19 \<or> c = 20 \<or> c = 21 \<or> c = 22)" "c \<noteq> 16" by auto
        from "1.IH"(3)[OF r refl False c[symmetric] this three d] s1
        show ?thesis by simp
      next
        case many
        with "1.prems" r False obtain n s2 k where
          d: "decodeNumber P s1 = Inr (n, s2)" and lc: "loopCount n = Some k"
          and t: "decodeUnused_times P k s2 = Inr s'"
          by (auto simp: ps c Let_def split: if_splits sum.splits option.splits)
        from many have "\<not> (c = 0 \<or> c = 4)" "\<not> (c = 1 \<or> c = 5 \<or> c = 8)" 
          "\<not> (c = 2 \<or> c = 6 \<or> c = 7 \<or> c = 9)" "c \<noteq> 3" "\<not> (c = 11 \<or> c = 13)" 
          "\<not> (c = 15 \<or> c = 19 \<or> c = 20 \<or> c = 21 \<or> c = 22)" "c \<noteq> 16" "c \<noteq> 17" by auto
        from "1.IH"(4)[OF r refl False c[symmetric] this many d refl lc t] decodeNumber_mono[OF d] s1
        show ?thesis by simp
      next
        case other
        with "1.prems" r False s1 show ?thesis
          by (auto simp: ps skip_def c Let_def split: if_splits)
      qed
    qed
  next
    case (2 P n s)
    note ps = decodeUnused_times.psimps[OF "2.hyps"]
    show ?case
    proof (cases "n = 0")
      case True
      from "2.prems" have "(if n = 0 then Inr s else case decodeUnused P s of
               Inl e \<Rightarrow> Inl e
             | Inr s' \<Rightarrow> decodeUnused_times P (n - 1) s') = Inr s''" by (simp only: ps)
      with True show ?thesis by simp
    next
      case False
      with "2.prems" obtain s1 where d: "decodeUnused P s = Inr s1"
        and t: "decodeUnused_times P (n - 1) s1 = Inr s''"
        by (auto simp: ps split: sum.splits)
      from "2.IH"(1)[OF False d] "2.IH"(2)[OF False d t] show ?thesis by simp
    qed
  qed
  show ?thesis
  proof (relation "(\<lambda>x. case x of Inl (P, s) \<Rightarrow> remaining s | Inr (P, n, s) \<Rightarrow> remaining s)
       <*mlex*> measure (\<lambda>x. case x of Inl (P, s) \<Rightarrow> 0 | Inr (P, n, s) \<Rightarrow> Suc n)", goal_cases)
    case 1
    show ?case by (simp add: wf_mlex)
  next
    case (2 P s x wire s1 c)
    then show ?case 
      by (auto dest!: readUint8_Inr simp: mlex_prod_def remaining_def)
  next
    case (3 P s x wire s1 c)
    then show ?case by (auto dest!: readUint8_Inr simp: mlex_prod_def remaining_def)
  next
    case (4 P s x wire s1 c)
    then show ?case by (auto dest!: readUint8_Inr simp: mlex_prod_def remaining_def)
  next
    case (5 P s x wire s1 c y n s2 k)
    then show ?case  
      by (auto dest!: readUint8_Inr decodeNumber_mono simp: mlex_prod_def remaining_def)
  next
    case (6 P n s)
    then show ?case by (auto simp: mlex_prod_def)
  next
    case (7 P n s s')
    from mono(1)[OF 7(3) 7(2)] 7(1) show ?case
      by (auto simp: mlex_prod_def remaining_def)
  qed
qed


section \<open>Serializers and values\<close>

datatype primitive =
  P_bool | P_int32 | P_int64 | P_uint64 | P_float32 | P_float64 | P_timestamp | P_string | P_bytes

text \<open>
  An enum serializer is built on a function \<open>createFn\<close>, and the source has two of
  them: the result of \<open>makeCreateEnumFunction\<close> for the enum class of a generated
  module (\<open>_initModuleClasses\<close>), and the function that \<open>parseTypeDescriptorFromJson\<close>
  passes for an enum record of a type descriptor.
\<close>

datatype enum_createFn = OfModuleClass | OfTypeDescriptor

datatype serializer =
    PrimitiveSerializer primitive
  | OptionalSerializerImpl serializer
  | ArraySerializerImpl serializer "jsstring option"
  | StructSerializerImpl nat jsstring "struct_field list" "nat list"
  | EnumSerializerImpl enum_createFn nat jsstring "enum_field list" "nat list"
and struct_field =
    StructFieldImpl (field_name: jsstring) (property: jsstring) (number: nat)
      (field_serializer: serializer)
and enum_field =
    EnumFieldImpl (variant_name: jsstring) (variant_number: nat)
      (variant_serializer: "serializer option")

record UnrecognizedFields =
  fields_token :: nat
  totalSlots :: nat
  fields_json :: "json list option"
  fields_bytes :: "byte list option"

record UnrecognizedEnum =
  enum_token :: nat
  enum_json :: "json option"
  enum_bytes :: "byte list option"

datatype val =
    VUndefined
  | VNull
  | VBool bool
  | VNumber number
  | VBigInt int
  | VTimestamp Timestamp
  | VString jsstring
  | VBytes "byte list"
  | VArray "val list"
  | VStruct "(jsstring \<times> val) list" "UnrecognizedFields option"
  | VEnum "jsstring option" "val option" "UnrecognizedEnum option"

fun getProp :: "val \<Rightarrow> jsstring \<Rightarrow> val" where
  "getProp (VStruct ps u) p = (case map_of ps p of Some v \<Rightarrow> v | None \<Rightarrow> VUndefined)"
| "getProp _ p = VUndefined"

definition slot :: "struct_field list \<Rightarrow> nat \<Rightarrow> struct_field option" where
  "slot flds i = (case filter (\<lambda>f. number f = i) flds of [] \<Rightarrow> None | fs \<Rightarrow> Some (last fs))"

definition slots_length :: "struct_field list \<Rightarrow> nat" where
  "slots_length flds = (if flds = [] then 0 else Max (set (map number flds)) + 1)"

definition recognizedSlots :: "struct_field list \<Rightarrow> nat list \<Rightarrow> nat" where
  "recognizedSlots flds removed =
     nat (Max (set ((int (slots_length flds) - 1) # map int removed)) + 1)"

lemma slot_in_set: "slot flds i = Some f \<Longrightarrow> f \<in> set flds"
proof -
  assume a: "slot flds i = Some f"
  then have ne: "filter (\<lambda>f. number f = i) flds \<noteq> []" and f: "f = last (filter (\<lambda>f. number f = i) flds)"
    by (auto simp: slot_def split: list.splits)
  from last_in_set[OF ne] f have "f \<in> set (filter (\<lambda>f. number f = i) flds)" by simp
  then show ?thesis by simp
qed

lemma size_field_serializer: "size (field_serializer f) < size f"
  by (cases f) simp

lemma size_slot: "slot flds i = Some f \<Longrightarrow> size (field_serializer f) < size_list size flds"
proof -
  assume "slot flds i = Some f"
  then have "f \<in> set flds" by (rule slot_in_set)
  then have "size f \<le> size_list size flds" by (simp add: size_list_estimation')
  with size_field_serializer[of f] show ?thesis by simp
qed


text \<open>
  Modelled from the spec: the enum class of a generated module (its constructor and
  \<open>createValueFn\<close>), which is not part of the repository and on which
  \<open>makeCreateEnumFunction\<close> builds. The spec describes an enum as a tagged union with a
  reserved \<open>UNKNOWN\<close> variant named \<open>?\<close>, constant variants without payload and value
  variants that carry a payload: an instance is its kind, its value if it has one, and
  the \<open>UnrecognizedEnum\<close> it may carry, which is how \<open>_EnumBase\<close> stores them; the
  constant of a constant field is the instance of that kind.

  What \<open>createFn\<close> of an enum serializer returns for the string \<open>"?"\<close> (the call that
  initializes \<open>defaultValue\<close>) and for an \<open>UnrecognizedEnum\<close>.
  \<open>makeCreateEnumFunction\<close> answers a string with the constant of that name of the
  class, here \<open>UNKNOWN\<close>, the instance of kind \<open>?\<close>, and an \<open>UnrecognizedEnum\<close> with a
  new instance of kind \<open>?\<close> that carries it. The function of
  \<open>parseTypeDescriptorFromJson\<close> answers an \<open>UnrecognizedEnum\<close> with the object
  \<open>{kind: "?"}\<close>, and any other argument with the object made of the properties \<open>kind\<close>
  and \<open>value\<close> of the argument; the string \<open>"?"\<close> has neither, so both are \<open>undefined\<close>.
  The kind of an enum value is \<open>None\<close> when it is \<open>undefined\<close>.
\<close>

fun createFn_string :: "enum_createFn \<Rightarrow> val" where
  "createFn_string OfModuleClass = VEnum (Some (js ''?'')) None None"
| "createFn_string OfTypeDescriptor = VEnum None None None"

fun createFn_unrecognized :: "enum_createFn \<Rightarrow> UnrecognizedEnum \<Rightarrow> val" where
  "createFn_unrecognized OfModuleClass u = VEnum (Some (js ''?'')) None (Some u)"
| "createFn_unrecognized OfTypeDescriptor u = VEnum (Some (js ''?'')) None None"

fun defaultValue :: "serializer \<Rightarrow> val"
  and field_default :: "struct_field \<Rightarrow> jsstring \<times> val" where
  "defaultValue (PrimitiveSerializer P_bool) = VBool False"
| "defaultValue (PrimitiveSerializer P_int32) = VNumber (Finite 0)"
| "defaultValue (PrimitiveSerializer P_int64) = VBigInt 0"
| "defaultValue (PrimitiveSerializer P_uint64) = VBigInt 0"
| "defaultValue (PrimitiveSerializer P_float32) = VNumber (Finite 0)"
| "defaultValue (PrimitiveSerializer P_float64) = VNumber (Finite 0)"
| "defaultValue (PrimitiveSerializer P_timestamp) = VTimestamp Timestamp_UNIX_EPOCH"
| "defaultValue (PrimitiveSerializer P_string) = VString []"
| "defaultValue (PrimitiveSerializer P_bytes) = VBytes []"
| "defaultValue (OptionalSerializerImpl other) = VNull"
| "defaultValue (ArraySerializerImpl item k) = VArray []"
| "defaultValue (StructSerializerImpl tok rid flds removed) = VStruct (map field_default flds) None"
| "defaultValue (EnumSerializerImpl create tok rid flds removed) = createFn_string create"
| "field_default (StructFieldImpl n p k ser) = (p, defaultValue ser)"

fun primitive_isDefault :: "primitive \<Rightarrow> val \<Rightarrow> bool" where
  "primitive_isDefault P_bool v = (case v of VBool b \<Rightarrow> \<not> b | _ \<Rightarrow> False)"
| "primitive_isDefault P_int32 v = (case v of VNumber x \<Rightarrow> \<not> number_truthy x | _ \<Rightarrow> False)"
| "primitive_isDefault P_int64 v = (case v of VBigInt b \<Rightarrow> b = 0 | _ \<Rightarrow> False)"
| "primitive_isDefault P_uint64 v = (case v of VBigInt b \<Rightarrow> b = 0 | _ \<Rightarrow> False)"
| "primitive_isDefault P_float32 v = (case v of VNumber x \<Rightarrow> x = Finite 0 | _ \<Rightarrow> False)"
| "primitive_isDefault P_float64 v = (case v of VNumber x \<Rightarrow> x = Finite 0 | _ \<Rightarrow> False)"
| "primitive_isDefault P_timestamp v =
     (case v of VTimestamp t \<Rightarrow> \<not> number_truthy (unixMillis t) | _ \<Rightarrow> False)"
| "primitive_isDefault P_string v = (case v of VString s \<Rightarrow> s = [] | _ \<Rightarrow> False)"
| "primitive_isDefault P_bytes v = (case v of VBytes b \<Rightarrow> length b = 0 | _ \<Rightarrow> False)"

text \<open>
  \<open>isDefault\<close>. The struct serializer first compares its argument with its default
  instance by identity; the model compares the values, and so does not tell the default
  instance from another instance with the same fields and no unrecognized fields. The
  two answers can differ only for a struct that has, directly or through its struct
  fields, a field whose default value is not default (an enum of a parsed type
  descriptor), and then only on an instance that is not the default instance itself.
\<close>

fun isDefault :: "serializer \<Rightarrow> val \<Rightarrow> bool"
  and field_isDefault :: "struct_field \<Rightarrow> val \<Rightarrow> bool" where
  "isDefault (PrimitiveSerializer p) v = primitive_isDefault p v"
| "isDefault (OptionalSerializerImpl other) v = (v = VNull)"
| "isDefault (ArraySerializerImpl item k) v = (case v of VArray xs \<Rightarrow> length xs = 0 | _ \<Rightarrow> False)"
| "isDefault (StructSerializerImpl tok rid flds removed) v =
     (if v = VStruct (map field_default flds) None then True
      else case v of
        VStruct ps u \<Rightarrow> if u \<noteq> None then False else list_all (\<lambda>f. field_isDefault f v) flds
      | _ \<Rightarrow> False)"
| "isDefault (EnumSerializerImpl create tok rid flds removed) v =
     (case v of VEnum kind x u \<Rightarrow> kind = Some (js ''?'') \<and> u = None | _ \<Rightarrow> False)"
| "field_isDefault (StructFieldImpl n p k ser) v = isDefault ser (getProp v p)"

section \<open>Binary encoders\<close>

definition BoolSerializer_encode :: "bool \<Rightarrow> OutputStream \<Rightarrow> OutputStream" where
  "BoolSerializer_encode input s = writeUint8 (if input then 1 else 0) s"

text \<open>
  \<open>Int32Serializer.encode\<close>, for an integral \<open>input\<close> (an int32 value is an integer; the
  sums \<open>input + 256\<close> and \<open>input + 65536\<close> are exact then).
\<close>

definition Int32Serializer_encode :: "int \<Rightarrow> OutputStream \<Rightarrow> OutputStream" where
  "Int32Serializer_encode input s =
     (if input < 0 then
        (if input \<ge> - 256 then writeUint8 (input + 256) (writeUint8 235 s)
         else if input \<ge> - 65536 then writeUint16 (input + 65536) (writeUint8 236 s)
         else writeInt32 (if input \<ge> - 2147483648 then input else - 2147483648)
                (writeUint8 237 s))
      else if input < 232 then writeUint8 input s
      else if input < 65536 then writeUint16 input (writeUint8 232 s)
      else writeUint32 (if input \<le> 2147483647 then input else 2147483647) (writeUint8 233 s))"

definition Int64Serializer_encode :: "int \<Rightarrow> OutputStream \<Rightarrow> OutputStream" where
  "Int64Serializer_encode input s =
     (if input \<noteq> 0 then
        (if - 2147483648 \<le> input \<and> input \<le> 2147483647 then Int32Serializer_encode input s
         else writeInt64 (if input < MIN_INT64 then MIN_INT64
                          else if input < MAX_INT64 then input else MAX_INT64)
                (writeUint8 238 s))
      else writeUint8 0 s)"

definition Uint64Serializer_encode :: "int \<Rightarrow> OutputStream \<Rightarrow> OutputStream" where
  "Uint64Serializer_encode input s =
     (if input < 232 then writeUint8 (if input \<le> 0 then 0 else input) s
      else if input < 4294967296 then
        (if input < 65536 then writeUint16 input (writeUint8 232 s)
         else writeUint32 input (writeUint8 233 s))
      else writeUint64 (if input \<le> MAX_UINT64 then input else MAX_UINT64) (writeUint8 234 s))"

definition Float32Serializer_encode :: "platform \<Rightarrow> number \<Rightarrow> OutputStream \<Rightarrow> OutputStream" where
  "Float32Serializer_encode P input s =
     (if input = Finite 0 then writeUint8 0 s else writeFloat32 P input (writeUint8 240 s))"

definition Float64Serializer_encode :: "platform \<Rightarrow> number \<Rightarrow> OutputStream \<Rightarrow> OutputStream" where
  "Float64Serializer_encode P input s =
     (if input = Finite 0 then writeUint8 0 s else writeFloat64 P input (writeUint8 241 s))"

definition TimestampSerializer_encode :: "Timestamp \<Rightarrow> OutputStream \<Rightarrow> failure + OutputStream" where
  "TimestampSerializer_encode input s =
     (if number_truthy (unixMillis input) then
        (case BigInt_of_number (unixMillis input) of
           Inl e \<Rightarrow> Inl (Throws e)
         | Inr b \<Rightarrow> Inr (writeInt64 b (writeUint8 239 s)))
      else Inr (writeUint8 0 s))"

definition StringSerializer_encode :: "jsstring \<Rightarrow> OutputStream \<Rightarrow> failure + OutputStream" where
  "StringSerializer_encode input s =
     (if input = [] then Inr (writeUint8 242 s)
      else let s1 = writeUint8 243 s;
               maxEncodedLength = length input * 3;
               s2 = (if maxEncodedLength < 232 then writeUint8 0 s1
                     else if maxEncodedLength < 65536 then writeUint16 0 (writeUint8 232 s1)
                     else writeUint32 0 (writeUint8 233 s1));
               dataView = out_buffer s2;
               offset = out_offset s2
           in case putUtf8String input s2 of
                None \<Rightarrow> Inl Diverges
              | Some (encodedLength, s3) \<Rightarrow>
                  Inr (if maxEncodedLength < 232
                       then poke dataView (offset - 1) [word_of_int (int encodedLength)] s3
                       else if maxEncodedLength < 65536
                       then poke dataView (offset - 2) (le16 (int encodedLength)) s3
                       else poke dataView (offset - 4) (le32 (int encodedLength)) s3))"

definition ByteStringSerializer_encode :: "byte list \<Rightarrow> OutputStream \<Rightarrow> failure + OutputStream" where
  "ByteStringSerializer_encode input s =
     (if length input \<noteq> 0 then
        (case encodeUint32 (length input) (writeUint8 245 s) of
           Inl e \<Rightarrow> Inl e
         | Inr s1 \<Rightarrow> Inr (putBytes input s1))
      else Inr (writeUint8 244 s))"

text \<open>
  The \<open>encode\<close> method of the primitive serializer \<open>p\<close>. A value of another type than the
  serializer's is excluded by the TypeScript types; so is, for \<open>int32\<close>, a number that is
  not an integer.
\<close>

fun primitive_encode ::
  "platform \<Rightarrow> primitive \<Rightarrow> val \<Rightarrow> OutputStream \<Rightarrow> failure + OutputStream" where
  "primitive_encode P P_bool v s =
     (case v of VBool b \<Rightarrow> Inr (BoolSerializer_encode b s) | _ \<Rightarrow> Inl OutsideModel)"
| "primitive_encode P P_int32 v s =
     (case v of
        VNumber (Finite r) \<Rightarrow>
          if of_int \<lfloor>r\<rfloor> = r then Inr (Int32Serializer_encode \<lfloor>r\<rfloor> s) else Inl OutsideModel
      | _ \<Rightarrow> Inl OutsideModel)"
| "primitive_encode P P_int64 v s =
     (case v of VBigInt b \<Rightarrow> Inr (Int64Serializer_encode b s) | _ \<Rightarrow> Inl OutsideModel)"
| "primitive_encode P P_uint64 v s =
     (case v of VBigInt b \<Rightarrow> Inr (Uint64Serializer_encode b s) | _ \<Rightarrow> Inl OutsideModel)"
| "primitive_encode P P_float32 v s =
     (case v of VNumber x \<Rightarrow> Inr (Float32Serializer_encode P x s) | _ \<Rightarrow> Inl OutsideModel)"
| "primitive_encode P P_float64 v s =
     (case v of VNumber x \<Rightarrow> Inr (Float64Serializer_encode P x s) | _ \<Rightarrow> Inl OutsideModel)"
| "primitive_encode P P_timestamp v s =
     (case v of VTimestamp t \<Rightarrow> TimestampSerializer_encode t s | _ \<Rightarrow> Inl OutsideModel)"
| "primitive_encode P P_string v s =
     (case v of VString x \<Rightarrow> StringSerializer_encode x s | _ \<Rightarrow> Inl OutsideModel)"
| "primitive_encode P P_bytes v s =
     (case v of VBytes x \<Rightarrow> ByteStringSerializer_encode x s | _ \<Rightarrow> Inl OutsideModel)"

text \<open>
  The header that opens both \<open>ArraySerializerImpl.encode\<close> and
  \<open>StructSerializerImpl.encode\<close> (the same statement in each, on \<open>length\<close> and on
  \<open>totalSlots\<close>).
\<close>

definition writeSlotCount :: "nat \<Rightarrow> OutputStream \<Rightarrow> failure + OutputStream" where
  "writeSlotCount n s =
     (if n \<le> 3 then Inr (writeUint8 (246 + int n) s)
      else encodeUint32 n (writeUint8 250 s))"

text \<open>\<open>reversedFields\<close>: the fields sorted by number in descending order (the sort is stable).\<close>

definition reversedFields :: "struct_field list \<Rightarrow> struct_field list" where
  "reversedFields flds = sort_key (\<lambda>f. - int (number f)) flds"

definition getArrayLength :: "struct_field list \<Rightarrow> val \<Rightarrow> nat" where
  "getArrayLength flds input =
     (case find (\<lambda>f. \<not> field_isDefault f input) (reversedFields flds) of
        Some f \<Rightarrow> number f + 1
      | None \<Rightarrow> 0)"

text \<open>
  The field mapping of an enum serializer, as far as its own properties go: an object
  whose keys are the names and the numbers of the registered fields, a later
  registration replacing an earlier one. The \<open>UNKNOWN\<close> field is registered first. The
  decimal representation of a number is never an inherited key; where a name is looked
  up, \<open>inherited\<close> tells the keys that the object answers without a field.
\<close>

text \<open>
  \<open>fieldMapping\<close> is a plain object: for a key that no field has registered, the lookup
  still finds what every object inherits from \<open>Object.prototype\<close>, a function or, for
  \<open>__proto__\<close>, the prototype itself. Such a result is truthy and has no property
  \<open>serializer\<close>, \<open>constant\<close>, \<open>number\<close> or \<open>property\<close>.
\<close>

definition Object_prototype_keys :: "jsstring list" where
  "Object_prototype_keys =
     [js ''constructor'', js ''__defineGetter__'', js ''__defineSetter__'', js ''hasOwnProperty'',
      js ''__lookupGetter__'', js ''__lookupSetter__'', js ''isPrototypeOf'',
      js ''propertyIsEnumerable'', js ''toString'', js ''valueOf'', js ''__proto__'',
      js ''toLocaleString'']"

definition inherited :: "jsstring \<Rightarrow> bool" where
  "inherited key = (key \<in> set Object_prototype_keys)"

text \<open>The property key that the kind of an enum value converts to.\<close>

fun kind_key :: "jsstring option \<Rightarrow> jsstring" where
  "kind_key (Some kind) = kind"
| "kind_key None = js ''undefined''"

definition UNKNOWN_FIELD :: enum_field where
  "UNKNOWN_FIELD = EnumFieldImpl (js ''?'') 0 None"

definition enum_fieldMapping :: "enum_field list \<Rightarrow> jsstring \<Rightarrow> enum_field option" where
  "enum_fieldMapping flds =
     map_of (rev (concat (map (\<lambda>f. [(variant_name f, f), (digits (variant_number f), f)])
                            (UNKNOWN_FIELD # flds))))"

lemma enum_fieldMapping_in_set:
  assumes "enum_fieldMapping flds key = Some f"
  shows "f = UNKNOWN_FIELD \<or> f \<in> set flds"
proof -
  from assms have "(key, f) \<in> set (rev (concat (map (\<lambda>f. [(variant_name f, f), (digits (variant_number f), f)])
                            (UNKNOWN_FIELD # flds))))"
    unfolding enum_fieldMapping_def by (rule map_of_SomeD)
  then show ?thesis by auto
qed

lemma size_variant_serializer:
  "variant_serializer f = Some ser \<Longrightarrow> size ser < size f"
  by (cases f) simp

lemma size_enum_lookup:
  assumes "enum_fieldMapping flds key = Some f" and "variant_serializer f = Some ser"
  shows "size ser < size_list size flds"
proof -
  from assms have "f \<in> set flds"
    by (auto dest!: enum_fieldMapping_in_set simp: UNKNOWN_FIELD_def)
  then have "size f \<le> size_list size flds" by (simp add: size_list_estimation')
  with size_variant_serializer[OF assms(2)] show ?thesis by simp
qed

function encode :: "platform \<Rightarrow> serializer \<Rightarrow> val \<Rightarrow> OutputStream \<Rightarrow> failure + OutputStream"
  and encodeItems ::
    "platform \<Rightarrow> serializer \<Rightarrow> val list \<Rightarrow> OutputStream \<Rightarrow> failure + OutputStream"
  and encodeSlots ::
    "platform \<Rightarrow> struct_field list \<Rightarrow> val \<Rightarrow> nat \<Rightarrow> nat \<Rightarrow> OutputStream \<Rightarrow> failure + OutputStream"
  where
  "encode P (PrimitiveSerializer p) input s = primitive_encode P p input s"
| "encode P (OptionalSerializerImpl other) input s =
     (if input = VNull then Inr (writeUint8 255 s) else encode P other input s)"
| "encode P (ArraySerializerImpl item k) input s =
     (case input of
        VArray xs \<Rightarrow>
          (case writeSlotCount (length xs) s of
             Inl e \<Rightarrow> Inl e
           | Inr s1 \<Rightarrow> encodeItems P item xs s1)
      | _ \<Rightarrow> Inl OutsideModel)"
| "encode P (StructSerializerImpl tok rid flds removed) input s =
     (case input of
        VStruct ps unrecognizedFields \<Rightarrow>
          (let (total, recognized, unrecognizedBytes) =
                 (case unrecognizedFields of
                    Some u \<Rightarrow>
                      (case fields_bytes u of
                         Some bytes \<Rightarrow>
                           if fields_token u = tok
                           then (totalSlots u, recognizedSlots flds removed, Some bytes)
                           else (getArrayLength flds input, getArrayLength flds input, None)
                       | None \<Rightarrow> (getArrayLength flds input, getArrayLength flds input, None))
                  | None \<Rightarrow> (getArrayLength flds input, getArrayLength flds input, None))
           in case writeSlotCount total s of
                Inl e \<Rightarrow> Inl e
              | Inr s1 \<Rightarrow>
                  (case encodeSlots P flds input 0 recognized s1 of
                     Inl e \<Rightarrow> Inl e
                   | Inr s2 \<Rightarrow>
                       Inr (case unrecognizedBytes of Some bytes \<Rightarrow> putBytes bytes s2
                            | None \<Rightarrow> s2)))
      | _ \<Rightarrow> Inl OutsideModel)"
| "encode P (EnumSerializerImpl create tok rid flds removed) input s =
     (case input of
        VEnum kind val unrecognized \<Rightarrow>
          (case (case unrecognized of
                   Some u \<Rightarrow> (case enum_bytes u of
                                Some bytes \<Rightarrow> if enum_token u = tok then Some bytes else None
                              | None \<Rightarrow> None)
                 | None \<Rightarrow> None) of
             Some bytes \<Rightarrow> Inr (putBytes bytes s)
           | None \<Rightarrow>
               if kind = Some (js ''?'') then Inr (writeUint8 0 s)
               else (case enum_fieldMapping flds (kind_key kind) of
                       None \<Rightarrow>
                         if inherited (kind_key kind)
                         then Inl (Throws (Error (js ''max length exceeded'')))
                         else Inl (Throws TypeError)
                     | Some field \<Rightarrow>
                         (case variant_serializer field of
                            Some ser \<Rightarrow>
                              (case (if variant_number field < 5
                                     then Inr (writeUint8 (250 + int (variant_number field)) s)
                                     else encodeUint32 (variant_number field) (writeUint8 248 s)) of
                                 Inl e \<Rightarrow> Inl e
                               | Inr s1 \<Rightarrow>
                                   encode P ser (case val of Some x \<Rightarrow> x | None \<Rightarrow> VUndefined) s1)
                          | None \<Rightarrow> encodeUint32 (variant_number field) s)))
      | _ \<Rightarrow> Inl OutsideModel)"
| "encodeItems P item [] s = Inr s"
| "encodeItems P item (x # xs) s =
     (case encode P item x s of
        Inl e \<Rightarrow> Inl e
      | Inr s' \<Rightarrow> encodeItems P item xs s')"
| "encodeSlots P flds input i n s =
     (if i < n then
        (case slot flds i of
           Some field \<Rightarrow>
             (case encode P (field_serializer field) (getProp input (property field)) s of
                Inl e \<Rightarrow> Inl e
              | Inr s' \<Rightarrow> encodeSlots P flds input (Suc i) n s')
         | None \<Rightarrow> encodeSlots P flds input (Suc i) n (writeUint8 0 s))
      else Inr s)"
  by pat_completeness auto
termination
proof (relation "(\<lambda>x. case x of
          Inl (P, ser, v, s) \<Rightarrow> 2 * size ser + 1
        | Inr (Inl (P, item, xs, s)) \<Rightarrow> 2 * size item + 2
        | Inr (Inr (P, flds, v, i, n, s)) \<Rightarrow> 2 * size_list size flds + 2)
      <*mlex*> measure (\<lambda>x. case x of
          Inl (P, ser, v, s) \<Rightarrow> 0
        | Inr (Inl (P, item, xs, s)) \<Rightarrow> length xs
        | Inr (Inr (P, flds, v, i, n, s)) \<Rightarrow> n - i)", goal_cases)
  case 1 show ?case by (simp add: wf_mlex)
qed (use size_slot size_enum_lookup in \<open>fastforce simp: mlex_prod_def\<close>)+

section \<open>Binary decoders\<close>

definition numeric_truthy :: "numeric \<Rightarrow> bool" where
  "numeric_truthy n = (case n of Num x \<Rightarrow> number_truthy x | Big b \<Rightarrow> b \<noteq> 0)"

definition BoolSerializer_decode ::
  "platform \<Rightarrow> InputStream \<Rightarrow> failure + val \<times> InputStream" where
  "BoolSerializer_decode P s =
     (case decodeNumber P s of
        Inl e \<Rightarrow> Inl e
      | Inr (n, s') \<Rightarrow> Inr (VBool (numeric_truthy n), s'))"

definition Int32Serializer_decode ::
  "platform \<Rightarrow> InputStream \<Rightarrow> failure + val \<times> InputStream" where
  "Int32Serializer_decode P s =
     (case decodeNumber P s of
        Inl e \<Rightarrow> Inl e
      | Inr (n, s') \<Rightarrow> Inr (VNumber (ToInt32 (Number n)), s'))"

definition FloatSerializer_decode ::
  "platform \<Rightarrow> InputStream \<Rightarrow> failure + val \<times> InputStream" where
  "FloatSerializer_decode P s =
     (case decodeNumber P s of
        Inl e \<Rightarrow> Inl e
      | Inr (n, s') \<Rightarrow> Inr (VNumber (Number n), s'))"

definition BigIntSerializer_decode ::
  "platform \<Rightarrow> InputStream \<Rightarrow> failure + val \<times> InputStream" where
  "BigIntSerializer_decode P s =
     (case decodeBigInt P s of
        Inl e \<Rightarrow> Inl e
      | Inr (b, s') \<Rightarrow> Inr (VBigInt b, s'))"

definition TimestampSerializer_decode ::
  "platform \<Rightarrow> InputStream \<Rightarrow> failure + val \<times> InputStream" where
  "TimestampSerializer_decode P s =
     (case decodeNumber P s of
        Inl e \<Rightarrow> Inl e
      | Inr (n, s') \<Rightarrow>
          (case fromUnixMillis (Number n) of
             Inl e \<Rightarrow> Inl (Throws e)
           | Inr t \<Rightarrow> Inr (VTimestamp t, s')))"

text \<open>
  \<open>new Uint8Array(stream.buffer, offset, length)\<close> raises a RangeError when the view
  would end after the buffer.
\<close>

definition StringSerializer_decode ::
  "platform \<Rightarrow> InputStream \<Rightarrow> failure + val \<times> InputStream" where
  "StringSerializer_decode P s =
     (case readUint8 s of
        Inl e \<Rightarrow> Inl e
      | Inr (wire, s1) \<Rightarrow>
          if wire = 0 \<or> wire = 242 then Inr (VString [], s1)
          else (case decodeNumber P s1 of
                  Inl e \<Rightarrow> Inl e
                | Inr (n, s2) \<Rightarrow>
                    (case asLength n of
                       None \<Rightarrow> Inl OutsideModel
                     | Some encodedLength \<Rightarrow>
                         if in_offset s2 + encodedLength \<le> length (in_buffer s2)
                         then Inr (VString (TextDecoder_decode P
                                     (take encodedLength (drop (in_offset s2) (in_buffer s2)))),
                                   skip encodedLength s2)
                         else Inl (Throws RangeError))))"

definition ByteStringSerializer_decode ::
  "platform \<Rightarrow> InputStream \<Rightarrow> failure + val \<times> InputStream" where
  "ByteStringSerializer_decode P s =
     (case readUint8 s of
        Inl e \<Rightarrow> Inl e
      | Inr (wire, s1) \<Rightarrow>
          if wire = 0 \<or> wire = 244 then Inr (VBytes [], s1)
          else (case decodeNumber P s1 of
                  Inl e \<Rightarrow> Inl e
                | Inr (n, s2) \<Rightarrow>
                    (case asLength n of
                       None \<Rightarrow> Inl OutsideModel
                     | Some lengthInBytes \<Rightarrow>
                         Inr (VBytes (sliceOf (in_buffer s2) (int (in_offset s2))
                                        (Some (int (in_offset s2 + lengthInBytes)))),
                              skip lengthInBytes s2))))"

fun primitive_decode ::
  "platform \<Rightarrow> primitive \<Rightarrow> InputStream \<Rightarrow> failure + val \<times> InputStream" where
  "primitive_decode P P_bool s = BoolSerializer_decode P s"
| "primitive_decode P P_int32 s = Int32Serializer_decode P s"
| "primitive_decode P P_int64 s = BigIntSerializer_decode P s"
| "primitive_decode P P_uint64 s = BigIntSerializer_decode P s"
| "primitive_decode P P_float32 s = FloatSerializer_decode P s"
| "primitive_decode P P_float64 s = FloatSerializer_decode P s"
| "primitive_decode P P_timestamp s = TimestampSerializer_decode P s"
| "primitive_decode P P_string s = StringSerializer_decode P s"
| "primitive_decode P P_bytes s = ByteStringSerializer_decode P s"

text \<open>
  \<open>new Array(length)\<close>: a RangeError unless \<open>length\<close> is an integer in \<open>[0, 2^32 - 1]\<close>.
  A bigint length is outside the model.
\<close>

fun arrayLength :: "numeric \<Rightarrow> failure + nat" where
  "arrayLength (Num (Finite r)) =
     (if 0 \<le> r \<and> of_int \<lfloor>r\<rfloor> = r \<and> r < 4294967296 then Inr (nat \<lfloor>r\<rfloor>)
      else Inl (Throws RangeError))"
| "arrayLength (Num _) = Inl (Throws RangeError)"
| "arrayLength (Big _) = Inl OutsideModel"

text \<open>
  \<open>initializerTemplate\<close> and the initializer objects built from it: from property
  names to values.
\<close>

definition initializerTemplate :: "struct_field list \<Rightarrow> (jsstring \<rightharpoonup> val)" where
  "initializerTemplate flds = map_of (map field_default flds)"

text \<open>
  Modelled from the spec: \<open>initFn\<close>, the generated initializer of a struct class, which
  \<open>createFn\<close> calls and which is not part of the repository. Of a frozen instance the
  spec says that it holds, for every field, the value given for the field's property.
  \<open>createFn\<close> then attaches the unrecognized fields of the initializer, if any. For a
  struct of a parsed type descriptor \<open>createFn\<close> is a frozen copy of the initializer,
  which has these properties and no other.
\<close>

definition createFn ::
  "struct_field list \<Rightarrow> (jsstring \<rightharpoonup> val) \<Rightarrow> UnrecognizedFields option \<Rightarrow> val" where
  "createFn flds initializer unrecognized =
     VStruct (map (\<lambda>f. (property f, case initializer (property f) of
                                        Some v \<Rightarrow> v | None \<Rightarrow> VUndefined)) flds)
             unrecognized"

text \<open>
  The property key of a number used as an index of \<open>fieldMapping\<close>: its decimal
  representation, for an integer.
\<close>

fun enum_key :: "numeric \<Rightarrow> jsstring option" where
  "enum_key (Num (Finite r)) = (if of_int \<lfloor>r\<rfloor> = r then Some (BigInt_toString \<lfloor>r\<rfloor>) else None)"
| "enum_key (Num _) = None"
| "enum_key (Big b) = Some (BigInt_toString b)"

text \<open>\<open>removedNumbers.has(number)\<close>; a bigint is never a member of a set of numbers.\<close>

fun removedNumbers_has :: "nat list \<Rightarrow> numeric \<Rightarrow> bool" where
  "removedNumbers_has removed (Num x) = (\<exists>k \<in> set removed. x = Finite (of_nat k))"
| "removedNumbers_has removed (Big b) = False"

text \<open>
  The result of the enum decoder for a number that no field has: \<open>this.defaultValue\<close>,
  or, when unrecognized fields are kept and the number is not a removed one, what
  \<open>createFn\<close> makes of an \<open>UnrecognizedEnum\<close> with the bytes read.
\<close>

definition enum_unrecognized ::
  "enum_createFn \<Rightarrow> nat \<Rightarrow> nat list \<Rightarrow> numeric \<Rightarrow> nat \<Rightarrow> InputStream \<Rightarrow> val" where
  "enum_unrecognized create tok removed n startOffset s =
     (if \<not> keepUnrecognizedFields s \<or> removedNumbers_has removed n
      then createFn_string create
      else createFn_unrecognized create
             \<lparr>enum_token = tok, enum_json = None,
              enum_bytes = Some (sliceOf (in_buffer s) (int startOffset)
                                   (Some (int (in_offset s))))\<rparr>)"

function decode :: "platform \<Rightarrow> serializer \<Rightarrow> InputStream \<Rightarrow> failure + val \<times> InputStream"
  and decodeItems ::
    "platform \<Rightarrow> serializer \<Rightarrow> nat \<Rightarrow> InputStream \<Rightarrow> failure + val list \<times> InputStream"
  and decodeSlots ::
    "platform \<Rightarrow> struct_field list \<Rightarrow> (jsstring \<rightharpoonup> val) \<Rightarrow> nat \<Rightarrow> nat \<Rightarrow> InputStream
       \<Rightarrow> failure + (jsstring \<rightharpoonup> val) \<times> InputStream"
  where
  "decode P (PrimitiveSerializer p) s = primitive_decode P p s"
| "decode P (OptionalSerializerImpl other) s =
     (case getUint8 s (in_offset s) of
        Inl e \<Rightarrow> Inl e
      | Inr wire \<Rightarrow> if wire = 255 then Inr (VNull, skip 1 s) else decode P other s)"
| "decode P (ArraySerializerImpl item k) s =
     (case readUint8 s of
        Inl e \<Rightarrow> Inl e
      | Inr (wire, s1) \<Rightarrow>
          if wire = 0 \<or> wire = 246 then Inr (VArray [], s1)
          else (case (if wire = 250
                      then (case decodeNumber P s1 of
                              Inl e \<Rightarrow> Inl e
                            | Inr (n, s2) \<Rightarrow>
                                (case arrayLength n of Inl e \<Rightarrow> Inl e | Inr len \<Rightarrow> Inr (len, s2)))
                      else if wire < 246 then Inl (Throws RangeError)
                      else Inr (wire - 246, s1)) of
                  Inl e \<Rightarrow> Inl e
                | Inr (len, s2) \<Rightarrow>
                    (case decodeItems P item len s2 of
                       Inl e \<Rightarrow> Inl e
                     | Inr (xs, s3) \<Rightarrow> Inr (VArray xs, s3))))"
| "decode P (StructSerializerImpl tok rid flds removed) s =
     (case readUint8 s of
        Inl e \<Rightarrow> Inl e
      | Inr (wire, s1) \<Rightarrow>
          if wire = 0 \<or> wire = 246
          then Inr (defaultValue (StructSerializerImpl tok rid flds removed), s1)
          else (case (if wire = 250
                      then (case decodeNumber P s1 of
                              Inl e \<Rightarrow> Inl e
                            | Inr (n, s2) \<Rightarrow>
                                (case asLength n of
                                   None \<Rightarrow> Inl OutsideModel
                                 | Some k \<Rightarrow> Inr (int k, s2)))
                      else Inr (int wire - 246, s1)) of
                  Inl e \<Rightarrow> Inl e
                | Inr (encodedSlots, s2) \<Rightarrow>
                    (case decodeSlots P flds (initializerTemplate flds) 0
                            (nat (min encodedSlots (int (recognizedSlots flds removed)))) s2 of
                       Inl e \<Rightarrow> Inl e
                     | Inr (initializer, s3) \<Rightarrow>
                         if encodedSlots > int (recognizedSlots flds removed)
                         then (case decodeUnused_times P
                                      (nat (encodedSlots - int (recognizedSlots flds removed))) s3 of
                                 Inl e \<Rightarrow> Inl e
                               | Inr s4 \<Rightarrow>
                                   if keepUnrecognizedFields s4
                                   then Inr (createFn flds initializer
                                          (Some \<lparr>fields_token = tok,
                                                 totalSlots = nat encodedSlots,
                                                 fields_json = None,
                                                 fields_bytes =
                                                   Some (sliceOf (in_buffer s4) (int (in_offset s3))
                                                           (Some (int (in_offset s4))))\<rparr>), s4)
                                   else Inr (createFn flds initializer None, s4))
                         else Inr (createFn flds initializer None, s3))))"
| "decode P (EnumSerializerImpl create tok rid flds removed) s =
     (case getUint8 s (in_offset s) of
        Inl e \<Rightarrow> Inl e
      | Inr wire \<Rightarrow>
          if wire < 242 then
            (case decodeNumber P s of
               Inl e \<Rightarrow> Inl e
             | Inr (n, s1) \<Rightarrow>
                 (case enum_key n of
                    None \<Rightarrow> Inl OutsideModel
                  | Some key \<Rightarrow>
                      (case enum_fieldMapping flds key of
                         None \<Rightarrow> Inr (enum_unrecognized create tok removed n (in_offset s) s1, s1)
                       | Some field \<Rightarrow>
                           (case variant_serializer field of
                              Some ser \<Rightarrow> Inl (Throws (Error (js ''refers to a value field'')))
                            | None \<Rightarrow> Inr (VEnum (Some (variant_name field)) None None, s1)))))
          else
            (case (if wire = 248 then decodeNumber P (skip 1 s)
                   else Inr (Num (Finite (of_int (int wire - 250))), skip 1 s)) of
               Inl e \<Rightarrow> Inl e
             | Inr (n, s1) \<Rightarrow>
                 (case enum_key n of
                    None \<Rightarrow> Inl OutsideModel
                  | Some key \<Rightarrow>
                      (case enum_fieldMapping flds key of
                         None \<Rightarrow>
                           (case decodeUnused P s1 of
                              Inl e \<Rightarrow> Inl e
                            | Inr s2 \<Rightarrow>
                                Inr (enum_unrecognized create tok removed n (in_offset s) s2, s2))
                       | Some field \<Rightarrow>
                           (case variant_serializer field of
                              None \<Rightarrow> Inl (Throws (Error (js ''refers to a constant field'')))
                            | Some ser \<Rightarrow>
                                (case decode P ser s1 of
                                   Inl e \<Rightarrow> Inl e
                                 | Inr (v, s2) \<Rightarrow>
                                     Inr (VEnum (Some (variant_name field)) (Some v) None, s2)))))))"
| "decodeItems P item 0 s = Inr ([], s)"
| "decodeItems P item (Suc n) s =
     (case decode P item s of
        Inl e \<Rightarrow> Inl e
      | Inr (x, s') \<Rightarrow>
          (case decodeItems P item n s' of
             Inl e \<Rightarrow> Inl e
           | Inr (xs, s'') \<Rightarrow> Inr (x # xs, s'')))"
| "decodeSlots P flds initializer i n s =
     (if i < n then
        (case slot flds i of
           Some field \<Rightarrow>
             (case decode P (field_serializer field) s of
                Inl e \<Rightarrow> Inl e
              | Inr (v, s') \<Rightarrow>
                  decodeSlots P flds (initializer(property field \<mapsto> v)) (Suc i) n s')
         | None \<Rightarrow>
             (case decodeUnused P s of
                Inl e \<Rightarrow> Inl e
              | Inr s' \<Rightarrow> decodeSlots P flds initializer (Suc i) n s'))
      else Inr (initializer, s))"
  by pat_completeness auto
termination
proof (relation "(\<lambda>x. case x of
          Inl (P, ser, s) \<Rightarrow> 2 * size ser + 1
        | Inr (Inl (P, item, n, s)) \<Rightarrow> 2 * size item + 2
        | Inr (Inr (P, flds, init, i, n, s)) \<Rightarrow> 2 * size_list size flds + 2)
      <*mlex*> measure (\<lambda>x. case x of
          Inl (P, ser, s) \<Rightarrow> 0
        | Inr (Inl (P, item, n, s)) \<Rightarrow> n
        | Inr (Inr (P, flds, init, i, n, s)) \<Rightarrow> n - i)", goal_cases)
  case 1 show ?case by (simp add: wf_mlex)
qed (use size_slot size_enum_lookup in \<open>fastforce simp: mlex_prod_def\<close>)+

section \<open>JSON decoders\<close>

text \<open>
  \<open>+json\<close>: the number a JSON value converts to. For an array or an object the
  conversion goes through \<open>toString\<close>; such input is outside the model.
\<close>

fun ToNumber :: "platform \<Rightarrow> json \<Rightarrow> number option" where
  "ToNumber P (JNumber x) = Some x"
| "ToNumber P (JString s) = Some (StringToNumber P s)"
| "ToNumber P (JBoolean b) = Some (Finite (if b then 1 else 0))"
| "ToNumber P JNull = Some (Finite 0)"
| "ToNumber P _ = None"

definition Int32Serializer_fromJson :: "platform \<Rightarrow> json \<Rightarrow> failure + val" where
  "Int32Serializer_fromJson P j =
     (case ToNumber P j of None \<Rightarrow> Inl OutsideModel | Some x \<Rightarrow> Inr (VNumber (ToInt32 x)))"

definition FloatSerializer_fromJson :: "platform \<Rightarrow> json \<Rightarrow> failure + val" where
  "FloatSerializer_fromJson P j =
     (case ToNumber P j of None \<Rightarrow> Inl OutsideModel | Some x \<Rightarrow> Inr (VNumber x))"

text \<open>
  \<open>AbstractBigIntSerializer.fromJson\<close>: \<open>BigInt(json)\<close>, and when that raises and \<open>json\<close>
  is a number, \<open>BigInt(Math.round(json))\<close>.
\<close>

fun AbstractBigIntSerializer_fromJson :: "platform \<Rightarrow> json \<Rightarrow> failure + int" where
  "AbstractBigIntSerializer_fromJson P (JNumber x) =
     (case BigInt_of_number x of
        Inr b \<Rightarrow> Inr b
      | Inl e \<Rightarrow>
          (case BigInt_of_number (Math_round x) of
             Inr b \<Rightarrow> Inr b
           | Inl e' \<Rightarrow> Inl (Throws e')))"
| "AbstractBigIntSerializer_fromJson P (JString s) =
     (case StringToBigInt P s of None \<Rightarrow> Inl (Throws SyntaxError) | Some b \<Rightarrow> Inr b)"
| "AbstractBigIntSerializer_fromJson P (JBoolean b) = Inr (if b then 1 else 0)"
| "AbstractBigIntSerializer_fromJson P JNull = Inl (Throws TypeError)"
| "AbstractBigIntSerializer_fromJson P _ = Inl OutsideModel"

fun TimestampSerializer_fromJson :: "platform \<Rightarrow> json \<Rightarrow> failure + val" where
  "TimestampSerializer_fromJson P (JNumber x) =
     (case fromUnixMillis x of Inl e \<Rightarrow> Inl (Throws e) | Inr t \<Rightarrow> Inr (VTimestamp t))"
| "TimestampSerializer_fromJson P (JString s) =
     (case fromUnixMillis (StringToNumber P s) of
        Inl e \<Rightarrow> Inl (Throws e) | Inr t \<Rightarrow> Inr (VTimestamp t))"
| "TimestampSerializer_fromJson P (JObject kvs) =
     (case map_of kvs (js ''unix_millis'') of
        Some (JNumber x) \<Rightarrow>
          (case fromUnixMillis x of Inl e \<Rightarrow> Inl (Throws e) | Inr t \<Rightarrow> Inr (VTimestamp t))
      | _ \<Rightarrow> Inl OutsideModel)"
| "TimestampSerializer_fromJson P JNull = Inl (Throws TypeError)"
| "TimestampSerializer_fromJson P _ = Inl OutsideModel"

text \<open>\<open>json === 0\<close>\<close>

definition is_zero :: "json \<Rightarrow> bool" where
  "is_zero j = (j = JNumber (Finite 0))"

definition StringSerializer_fromJson :: "json \<Rightarrow> failure + val" where
  "StringSerializer_fromJson j =
     (case j of
        JString s \<Rightarrow> Inr (VString s)
      | _ \<Rightarrow> if is_zero j then Inr (VString []) else Inl (Throws TypeError))"

text \<open>\<open>ByteString.fromBase16\<close>; the trailing character of a string of odd length is ignored.\<close>

fun fromBase16 :: "platform \<Rightarrow> jsstring \<Rightarrow> failure + byte list" where
  "fromBase16 P (a # b # rest) =
     (case parseInt P [a, b] 16 of
        NaN \<Rightarrow> Inl (Throws (Error (js ''Not a valid Base64 string'')))
      | byte \<Rightarrow>
          (case fromBase16 P rest of
             Inl e \<Rightarrow> Inl e
           | Inr bytes \<Rightarrow> Inr (word_of_int (integral byte) # bytes)))"
| "fromBase16 P _ = Inr []"

definition fromBase64 :: "platform \<Rightarrow> jsstring \<Rightarrow> failure + byte list" where
  "fromBase64 P base64 =
     (case atob P base64 of
        None \<Rightarrow> Inl (Throws (Error (js ''InvalidCharacterError'')))
      | Some binaryString \<Rightarrow> Inr (map (\<lambda>m. of_nat (unat m)) binaryString))"

definition ByteStringSerializer_fromJson :: "platform \<Rightarrow> json \<Rightarrow> failure + val" where
  "ByteStringSerializer_fromJson P j =
     (if is_zero j then Inr (VBytes [])
      else case j of
        JString string \<Rightarrow>
          (case (if take 4 string = js ''hex:'' then fromBase16 P (drop 4 string)
                 else fromBase64 P string) of
             Inl e \<Rightarrow> Inl e
           | Inr bytes \<Rightarrow> Inr (VBytes bytes))
      | _ \<Rightarrow> Inl (Throws TypeError))"

fun primitive_fromJson :: "platform \<Rightarrow> primitive \<Rightarrow> json \<Rightarrow> failure + val" where
  "primitive_fromJson P P_bool j = Inr (VBool (BoolSerializer_fromJson j))"
| "primitive_fromJson P P_int32 j = Int32Serializer_fromJson P j"
| "primitive_fromJson P P_int64 j =
     (case AbstractBigIntSerializer_fromJson P j of Inl e \<Rightarrow> Inl e | Inr b \<Rightarrow> Inr (VBigInt b))"
| "primitive_fromJson P P_uint64 j =
     (case AbstractBigIntSerializer_fromJson P j of Inl e \<Rightarrow> Inl e | Inr b \<Rightarrow> Inr (VBigInt b))"
| "primitive_fromJson P P_float32 j = FloatSerializer_fromJson P j"
| "primitive_fromJson P P_float64 j = FloatSerializer_fromJson P j"
| "primitive_fromJson P P_timestamp j = TimestampSerializer_fromJson P j"
| "primitive_fromJson P P_string j = StringSerializer_fromJson j"
| "primitive_fromJson P P_bytes j = ByteStringSerializer_fromJson P j"

text \<open>
  \<open>copyJson\<close>. For an object the callback of \<open>map\<close> receives an entry and its index, so
  the copy has one property per entry, named after the entry converted to a string and
  holding the index.
\<close>

fun copyJson :: "platform \<Rightarrow> json \<Rightarrow> json" where
  "copyJson P (JArray items) = JArray (map (copyJson P) items)"
| "copyJson P (JObject kvs) =
     JObject (map (\<lambda>((k, v), i). (entryToString P k v, JNumber (Finite (of_nat i))))
                (zip kvs [0 ..< length kvs]))"
| "copyJson P j = j"

text \<open>
  The field mapping of a struct serializer, as far as its own properties go: the names,
  the property names and the numbers of the fields are its keys, a later registration
  replacing an earlier one. Where a name is looked up, \<open>inherited\<close> tells the keys that
  the object answers without a field. A field named \<open>__proto__\<close> would replace the
  prototype of the object; the model has no such field.
\<close>

definition struct_fieldMapping :: "struct_field list \<Rightarrow> jsstring \<Rightarrow> struct_field option" where
  "struct_fieldMapping flds =
     map_of (rev (concat (map (\<lambda>f. [(field_name f, f), (property f, f), (digits (number f), f)])
                            flds)))"

lemma struct_fieldMapping_in_set:
  assumes "struct_fieldMapping flds key = Some f"
  shows "f \<in> set flds"
proof -
  from assms have "(key, f) \<in> set (rev (concat (map (\<lambda>f. [(field_name f, f), (property f, f),
                                                          (digits (number f), f)]) flds)))"
    unfolding struct_fieldMapping_def by (rule map_of_SomeD)
  then show ?thesis by auto
qed

lemma size_struct_lookup:
  assumes "struct_fieldMapping flds key = Some f"
  shows "size (field_serializer f) < size_list size flds"
proof -
  from assms have "f \<in> set flds" by (rule struct_fieldMapping_in_set)
  then have "size f \<le> size_list size flds" by (simp add: size_list_estimation')
  with size_field_serializer[of f] show ?thesis by simp
qed

definition enum_unrecognized_json ::
  "platform \<Rightarrow> enum_createFn \<Rightarrow> nat \<Rightarrow> nat list \<Rightarrow> bool \<Rightarrow> bool \<Rightarrow> json \<Rightarrow> val" where
  "enum_unrecognized_json P create tok removed keep removed_here j =
     (if \<not> keep \<or> removed_here then createFn_string create
      else createFn_unrecognized create
             \<lparr>enum_token = tok, enum_json = Some (copyJson P j), enum_bytes = None\<rparr>)"

function fromJson :: "platform \<Rightarrow> serializer \<Rightarrow> json \<Rightarrow> bool \<Rightarrow> failure + val"
  and fromJsonItems :: "platform \<Rightarrow> serializer \<Rightarrow> json list \<Rightarrow> bool \<Rightarrow> failure + val list"
  and fromJsonSlots ::
    "platform \<Rightarrow> struct_field list \<Rightarrow> (jsstring \<rightharpoonup> val) \<Rightarrow> nat \<Rightarrow> json list \<Rightarrow> bool
       \<Rightarrow> failure + (jsstring \<rightharpoonup> val)"
  and fromJsonEntries ::
    "platform \<Rightarrow> struct_field list \<Rightarrow> (jsstring \<rightharpoonup> val) \<Rightarrow> (jsstring \<times> json) list \<Rightarrow> bool
       \<Rightarrow> failure + (jsstring \<rightharpoonup> val)"
  where
  "fromJson P (PrimitiveSerializer p) j keep = primitive_fromJson P p j"
| "fromJson P (OptionalSerializerImpl other) j keep =
     (if j \<noteq> JNull then fromJson P other j keep else Inr VNull)"
| "fromJson P (ArraySerializerImpl item k) j keep =
     (if is_zero j then Inr (VArray [])
      else case j of
        JArray items \<Rightarrow>
          (case fromJsonItems P item items keep of Inl e \<Rightarrow> Inl e | Inr xs \<Rightarrow> Inr (VArray xs))
      | _ \<Rightarrow> Inl (Throws TypeError))"
| "fromJson P (StructSerializerImpl tok rid flds removed) j keep =
     (if \<not> truthy j then Inr (defaultValue (StructSerializerImpl tok rid flds removed))
      else case j of
        JArray items \<Rightarrow>
          (let r = recognizedSlots flds removed;
               unrecognized =
                 (if length items > r \<and> keep
                  then Some \<lparr>fields_token = tok, totalSlots = length items,
                             fields_json = Some (map (copyJson P) (drop r items)),
                             fields_bytes = None\<rparr>
                  else None);
               items' = (if length items > r then take r items else items)
           in case fromJsonSlots P flds (initializerTemplate flds) 0
                     (take (slots_length flds) items') keep of
                Inl e \<Rightarrow> Inl e
              | Inr initializer \<Rightarrow> Inr (createFn flds initializer unrecognized))
      | JObject kvs \<Rightarrow>
          (case fromJsonEntries P flds (initializerTemplate flds) kvs keep of
             Inl e \<Rightarrow> Inl e
           | Inr initializer \<Rightarrow> Inr (createFn flds initializer None))
      | _ \<Rightarrow> Inl (Throws TypeError))"
| "fromJson P (EnumSerializerImpl create tok rid flds removed) j keep =
     (case j of
        JNumber x \<Rightarrow>
          (case enum_key (Num x) of
             None \<Rightarrow> Inl OutsideModel
           | Some key \<Rightarrow>
               (case enum_fieldMapping flds key of
                  None \<Rightarrow>
                    Inr (enum_unrecognized_json P create tok removed keep
                           (removedNumbers_has removed (Num x)) j)
                | Some field \<Rightarrow>
                    (case variant_serializer field of
                       Some ser \<Rightarrow> Inl (Throws (Error (js ''refers to a value field'')))
                     | None \<Rightarrow> Inr (VEnum (Some (variant_name field)) None None))))
      | JString name \<Rightarrow>
          (case enum_fieldMapping flds name of
             None \<Rightarrow>
               if inherited name then Inr VUndefined
               else Inr (enum_unrecognized_json P create tok removed keep False j)
           | Some field \<Rightarrow>
               (case variant_serializer field of
                  Some ser \<Rightarrow> Inl (Throws (Error (js ''refers to a value field'')))
                | None \<Rightarrow> Inr (VEnum (Some (variant_name field)) None None)))
      | JArray items \<Rightarrow>
          (case items of
             JNumber x # valueAsJson # rest \<Rightarrow>
               (case enum_key (Num x) of
                  None \<Rightarrow> Inl OutsideModel
                | Some key \<Rightarrow>
                    (case enum_fieldMapping flds key of
                       None \<Rightarrow>
                         Inr (enum_unrecognized_json P create tok removed keep
                                (removedNumbers_has removed (Num x)) j)
                     | Some field \<Rightarrow>
                         (case variant_serializer field of
                            None \<Rightarrow> Inl (Throws (Error (js ''refers to a constant field'')))
                          | Some ser \<Rightarrow>
                              (case fromJson P ser valueAsJson keep of
                                 Inl e \<Rightarrow> Inl e
                               | Inr v \<Rightarrow> Inr (VEnum (Some (variant_name field)) (Some v) None)))))
           | _ \<Rightarrow> Inl OutsideModel)
      | JObject kvs \<Rightarrow>
          (case (map_of kvs (js ''kind''), map_of kvs (js ''value'')) of
             (Some (JString kind), Some valueAsJson) \<Rightarrow>
               (case enum_fieldMapping flds kind of
                  None \<Rightarrow>
                    if inherited kind
                    then Inl (Throws (Error (js ''refers to a constant field'')))
                    else Inr (enum_unrecognized_json P create tok removed keep False j)
                | Some field \<Rightarrow>
                    (case variant_serializer field of
                       None \<Rightarrow> Inl (Throws (Error (js ''refers to a constant field'')))
                     | Some ser \<Rightarrow>
                         (case fromJson P ser valueAsJson keep of
                            Inl e \<Rightarrow> Inl e
                          | Inr v \<Rightarrow> Inr (VEnum (Some (variant_name field)) (Some v) None))))
           | _ \<Rightarrow> Inl OutsideModel)
      | _ \<Rightarrow> Inl (Throws TypeError))"
| "fromJsonItems P item [] keep = Inr []"
| "fromJsonItems P item (e # es) keep =
     (case fromJson P item e keep of
        Inl err \<Rightarrow> Inl err
      | Inr x \<Rightarrow>
          (case fromJsonItems P item es keep of Inl err \<Rightarrow> Inl err | Inr xs \<Rightarrow> Inr (x # xs)))"
| "fromJsonSlots P flds initializer i [] keep = Inr initializer"
| "fromJsonSlots P flds initializer i (e # es) keep =
     (case slot flds i of
        Some field \<Rightarrow>
          (case fromJson P (field_serializer field) e keep of
             Inl err \<Rightarrow> Inl err
           | Inr v \<Rightarrow> fromJsonSlots P flds (initializer(property field \<mapsto> v)) (Suc i) es keep)
      | None \<Rightarrow> fromJsonSlots P flds initializer (Suc i) es keep)"
| "fromJsonEntries P flds initializer [] keep = Inr initializer"
| "fromJsonEntries P flds initializer ((name, e) # es) keep =
     (case struct_fieldMapping flds name of
        Some field \<Rightarrow>
          (case fromJson P (field_serializer field) e keep of
             Inl err \<Rightarrow> Inl err
           | Inr v \<Rightarrow> fromJsonEntries P flds (initializer(property field \<mapsto> v)) es keep)
      | None \<Rightarrow>
          if inherited name then Inl (Throws TypeError)
          else fromJsonEntries P flds initializer es keep)"
  by pat_completeness auto
termination
proof (relation "(\<lambda>x. case x of
          Inl (Inl (P, ser, j, keep)) \<Rightarrow> 2 * size ser + 1
        | Inl (Inr (P, item, es, keep)) \<Rightarrow> 2 * size item + 2
        | Inr (Inl (P, flds, init, i, es, keep)) \<Rightarrow> 2 * size_list size flds + 2
        | Inr (Inr (P, flds, init, kvs, keep)) \<Rightarrow> 2 * size_list size flds + 2)
      <*mlex*> measure (\<lambda>x. case x of
          Inl (Inl (P, ser, j, keep)) \<Rightarrow> 0
        | Inl (Inr (P, item, es, keep)) \<Rightarrow> length es
        | Inr (Inl (P, flds, init, i, es, keep)) \<Rightarrow> length es
        | Inr (Inr (P, flds, init, kvs, keep)) \<Rightarrow> length kvs)", goal_cases)
  case 1 show ?case by (simp add: wf_mlex)
qed (use size_slot size_enum_lookup size_struct_lookup in \<open>fastforce simp: mlex_prod_def\<close>)+

section \<open>AbstractSerializer: the binary entry points\<close>

definition fromBytes :: "platform \<Rightarrow> serializer \<Rightarrow> byte list \<Rightarrow> bool \<Rightarrow> failure + val" where
  "fromBytes P ser bytes keep =
     (case decode P ser ((new_InputStream bytes keep)\<lparr>in_offset := 4\<rparr>) of
        Inl e \<Rightarrow> Inl e
      | Inr (v, s) \<Rightarrow> Inr v)"

definition toBytes :: "platform \<Rightarrow> serializer \<Rightarrow> val \<Rightarrow> failure + OutputStream" where
  "toBytes P ser input =
     (case putUtf8String (js ''soia'') new_OutputStream of
        None \<Rightarrow> Inl Diverges
      | Some (n, stream) \<Rightarrow>
          (case encode P ser input stream of
             Inl e \<Rightarrow> Inl e
           | Inr stream' \<Rightarrow> Inr (finalize stream')))"

text \<open>\<open>.toBuffer()\<close> applied to the result of \<open>toBytes\<close>.\<close>

definition bytesOf :: "failure + OutputStream \<Rightarrow> failure + byte list" where
  "bytesOf r = (case r of Inl e \<Rightarrow> Inl e | Inr s \<Rightarrow> Inr (toBuffer s))"

text \<open>The four bytes of the ASCII string \<open>soia\<close>.\<close>

definition soia :: "byte list" where
  "soia = [115, 111, 105, 97]"

text \<open>A platform whose conversions are trivial, for facts stated at a concrete input.\<close>

definition platform0 :: platform where
  "platform0 =
     \<lparr>StringToNumber = (\<lambda>_. NaN), StringToBigInt = (\<lambda>_. None), atob = (\<lambda>_. None),
      parseInt = (\<lambda>_ _. NaN), entryToString = (\<lambda>_ _. []),
      setFloat32 = (\<lambda>_. 0), setFloat64 = (\<lambda>_. 0), getFloat32 = (\<lambda>_. NaN),
      getFloat64 = (\<lambda>_. NaN), TextDecoder_decode = (\<lambda>_. []), JSON_stringify = (\<lambda>_ _. [])\<rparr>"

section \<open>Type descriptors as JSON\<close>

fun primitive_name :: "primitive \<Rightarrow> jsstring" where
  "primitive_name P_bool = js ''bool''"
| "primitive_name P_int32 = js ''int32''"
| "primitive_name P_int64 = js ''int64''"
| "primitive_name P_uint64 = js ''uint64''"
| "primitive_name P_float32 = js ''float32''"
| "primitive_name P_float64 = js ''float64''"
| "primitive_name P_timestamp = js ''timestamp''"
| "primitive_name P_string = js ''string''"
| "primitive_name P_bytes = js ''bytes''"

text \<open>
  The getter \<open>typeSignature\<close>. The second argument of a record serializer is its record
  identifier, \<open>modulePath:qualifiedName\<close>. A property whose value is \<open>undefined\<close>
  (\<open>key_extractor\<close> of an array without key extractor) is left out of the JSON value.
\<close>

fun typeSignature :: "serializer \<Rightarrow> json" where
  "typeSignature (PrimitiveSerializer p) =
     JObject [(js ''kind'', JString (js ''primitive'')), (js ''value'', JString (primitive_name p))]"
| "typeSignature (OptionalSerializerImpl other) =
     JObject [(js ''kind'', JString (js ''optional'')), (js ''value'', typeSignature other)]"
| "typeSignature (ArraySerializerImpl item keyExtractor) =
     JObject [(js ''kind'', JString (js ''array'')),
              (js ''value'',
               JObject ((js ''item'', typeSignature item) #
                        (case keyExtractor of
                           None \<Rightarrow> []
                         | Some k \<Rightarrow> [(js ''key_extractor'', JString k)])))]"
| "typeSignature (StructSerializerImpl tok rid flds removed) =
     JObject [(js ''kind'', JString (js ''record'')), (js ''value'', JString rid)]"
| "typeSignature (EnumSerializerImpl create tok rid flds removed) =
     JObject [(js ''kind'', JString (js ''record'')), (js ''value'', JString rid)]"

definition struct_fieldDefinitions :: "struct_field list \<Rightarrow> json" where
  "struct_fieldDefinitions flds =
     JArray (map (\<lambda>f. JObject [(js ''name'', JString (field_name f)),
                                (js ''number'', JNumber (Finite (of_nat (number f)))),
                                (js ''type'', typeSignature (field_serializer f))]) flds)"

text \<open>The \<open>UNKNOWN\<close> field, the only one numbered 0, is skipped.\<close>

definition enum_fieldDefinitions :: "enum_field list \<Rightarrow> json" where
  "enum_fieldDefinitions flds =
     JArray (map (\<lambda>f. JObject ([(js ''name'', JString (variant_name f)),
                                 (js ''number'', JNumber (Finite (of_nat (variant_number f))))] @
                                (case variant_serializer f of
                                   Some ser \<Rightarrow> [(js ''type'', typeSignature ser)]
                                 | None \<Rightarrow> [])))
               (filter (\<lambda>f. variant_number f \<noteq> 0) (UNKNOWN_FIELD # flds)))"

definition recordDefinition :: "jsstring \<Rightarrow> jsstring \<Rightarrow> json \<Rightarrow> nat list \<Rightarrow> json" where
  "recordDefinition kind rid fieldDefinitions removed =
     JObject ([(js ''kind'', JString kind), (js ''id'', JString rid),
               (js ''fields'', fieldDefinitions)] @
              (if removed \<noteq> []
               then [(js ''removed_numbers'',
                      JArray (map (\<lambda>n. JNumber (Finite (of_nat n))) (rev (remdups (rev removed)))))]
               else []))"

lemma size_field_member:
  "f \<in> set flds \<Longrightarrow> size (field_serializer f) < size_list size flds"
proof -
  assume "f \<in> set flds"
  then have "size f \<le> size_list size flds" by (simp add: size_list_estimation')
  with size_field_serializer[of f] show ?thesis by simp
qed

lemma size_variant_member:
  "f \<in> set flds \<Longrightarrow> variant_serializer f = Some ser \<Longrightarrow> size ser < size_list size flds"
proof -
  assume "f \<in> set flds" and s: "variant_serializer f = Some ser"
  then have "size f \<le> size_list size flds" by (simp add: size_list_estimation')
  with size_variant_serializer[OF s] show ?thesis by simp
qed

text \<open>
  \<open>addRecordDefinitionsTo(out)\<close>. The object \<open>out\<close> is a list of properties in the
  order of their insertion.
\<close>

function addRecordDefinitionsTo ::
  "serializer \<Rightarrow> (jsstring \<times> json) list \<Rightarrow> (jsstring \<times> json) list" where
  "addRecordDefinitionsTo (PrimitiveSerializer p) out = out"
| "addRecordDefinitionsTo (OptionalSerializerImpl other) out = addRecordDefinitionsTo other out"
| "addRecordDefinitionsTo (ArraySerializerImpl item k) out = addRecordDefinitionsTo item out"
| "addRecordDefinitionsTo (StructSerializerImpl tok rid flds removed) out =
     (if map_of out rid \<noteq> None then out
      else fold (\<lambda>f. addRecordDefinitionsTo (field_serializer f)) flds
             (out @ [(rid, recordDefinition (js ''struct'') rid (struct_fieldDefinitions flds)
                            removed)]))"
| "addRecordDefinitionsTo (EnumSerializerImpl create tok rid flds removed) out =
     (if map_of out rid \<noteq> None then out
      else fold (\<lambda>f. case variant_serializer f of
                        Some ser \<Rightarrow> addRecordDefinitionsTo ser
                      | None \<Rightarrow> id) flds
             (out @ [(rid, recordDefinition (js ''enum'') rid (enum_fieldDefinitions flds)
                            removed)]))"
  by pat_completeness auto
termination
proof (relation "measure (\<lambda>(ser, out). size ser)", goal_cases)
  case 1 show ?case by simp
qed (use size_field_member size_variant_member in \<open>fastforce+\<close>)

definition asJson :: "serializer \<Rightarrow> json" where
  "asJson ser =
     JObject [(js ''type'', typeSignature ser),
              (js ''records'', JArray (map snd (addRecordDefinitionsTo ser [])))]"

section \<open>Service\<close>

record Method =
  method_name :: jsstring
  method_number :: nat
  requestSerializer :: serializer
  responseSerializer :: serializer

datatype response_type = ok_json | ok_html | bad_request | server_error

datatype RawResponse = RawResponse (data: jsstring) (response_type: response_type)

text \<open>
  A service: \<open>methodImpls\<close>, an object whose keys are method numbers. The handler of a
  method takes no part in what follows and is left out.
\<close>

type_synonym Service = "(nat \<times> Method) list"

definition addMethod :: "Method \<Rightarrow> Service \<Rightarrow> failure + Service" where
  "addMethod method svc =
     (if map_of svc (method_number method) \<noteq> None
      then Inl (Throws (Error (js ''Method with the same number already registered'')))
      else Inr (svc @ [(method_number method, method)]))"

text \<open>
  \<open>Object.values\<close> of an object with integer keys: the keys that are array indices
  (below \<open>2^32 - 1\<close>) in ascending order, then the other keys in the order of their
  insertion.
\<close>

definition Object_values :: "Service \<Rightarrow> Method list" where
  "Object_values svc =
     map snd (sort_key fst (filter (\<lambda>(k, m). k < 4294967295) svc)) @
     map snd (filter (\<lambda>(k, m). \<not> k < 4294967295) svc)"

definition RESTUDIO_HTML :: jsstring where
  "RESTUDIO_HTML = js (''<!DOCTYPE html>'' @ [CHR 0x0A, CHR 0x0A] @
     ''<html>'' @ [CHR 0x0A] @
     ''  <head>'' @ [CHR 0x0A] @
     ''    <meta charset='' @ [CHR 0x22] @ ''utf-8'' @ [CHR 0x22] @ '' />'' @ [CHR 0x0A] @
     ''    <title>RESTudio</title>'' @ [CHR 0x0A] @
     ''    <script src='' @ [CHR 0x22] @
     ''https://cdn.jsdelivr.net/npm/restudio/dist/restudio-standalone.js'' @ [CHR 0x22] @
     ''></script>'' @ [CHR 0x0A] @
     ''  </head>'' @ [CHR 0x0A] @
     ''  <body style='' @ [CHR 0x22] @ ''margin: 0; padding: 0;'' @ [CHR 0x22] @ ''>'' @ [CHR 0x0A] @
     ''    <restudio-app></restudio-app>'' @ [CHR 0x0A] @
     ''  </body>'' @ [CHR 0x0A] @
     ''</html>'' @ [CHR 0x0A])"

text \<open>
  \<open>handleRequest\<close>. Its first two branches answer the listing and the RESTudio page; the
  rest of the method (parsing a framed call, invoking the handler, serializing its
  response) is the parameter \<open>call\<close>.
\<close>

definition handleRequest ::
  "platform \<Rightarrow> (jsstring \<Rightarrow> RawResponse) \<Rightarrow> Service \<Rightarrow> jsstring \<Rightarrow> RawResponse" where
  "handleRequest P call svc reqBody =
     (if reqBody = js '''' \<or> reqBody = js ''list'' then
        (let json = JObject
               [(js ''methods'',
                 JArray (map (\<lambda>method.
                           JObject [(js ''method'', JString (method_name method)),
                                    (js ''number'', JString (method_name method)),
                                    (js ''request'', asJson (requestSerializer method)),
                                    (js ''response'', asJson (responseSerializer method))])
                         (Object_values svc)))]
         in RawResponse (JSON_stringify P json (js ''  '')) ok_json)
      else if reqBody = js ''restudio'' then RawResponse RESTUDIO_HTML ok_html
      else call reqBody)"


section \<open>Properties of the output stream\<close>

text \<open>
  The bytes written so far: the pieces, then the used part of the current buffer.
  \<open>wf_stream\<close> is the invariant of a stream that has not been finalized.
\<close>

definition contents :: "OutputStream \<Rightarrow> byte list" where
  "contents s = toBuffer s @ take (out_offset s) (buffers s ! out_buffer s)"

definition wf_stream :: "OutputStream \<Rightarrow> bool" where
  "wf_stream s =
     (out_buffer s < length (buffers s) \<and>
      out_offset s \<le> length (buffers s ! out_buffer s) \<and>
      list_all (\<lambda>(b, n). b < length (buffers s) \<and> b \<noteq> out_buffer s) (pieces s))"

lemma toBuffer_finalize: "toBuffer (finalize s) = contents s"
  by (simp add: finalize_def flush_def toBuffer_def contents_def)

lemma toBuffer_cong:
  assumes "\<And>b n. (b, n) \<in> set (pieces s) \<Longrightarrow> buffers s' ! b = buffers s ! b"
    and "pieces s' = pieces s"
  shows "toBuffer s' = toBuffer s"
  unfolding toBuffer_def using assms by (auto intro!: arg_cong[where f=concat])

lemma toBuffer_append_buffer:
  assumes "wf_stream s"
  shows "concat (map (\<lambda>(b, n). take n ((buffers s @ [z]) ! b)) (pieces s)) = toBuffer s"
proof -
  have "map (\<lambda>(b, n). take n ((buffers s @ [z]) ! b)) (pieces s)
        = map (\<lambda>(b, n). take n (buffers s ! b)) (pieces s)"
  proof (rule map_cong[OF refl])
    fix p assume "p \<in> set (pieces s)"
    with assms have "fst p < length (buffers s)"
      by (auto simp: wf_stream_def list_all_iff)
    then show "(case p of (b, n) \<Rightarrow> take n ((buffers s @ [z]) ! b))
               = (case p of (b, n) \<Rightarrow> take n (buffers s ! b))"
      by (cases p) (simp add: nth_append)
  qed
  then show ?thesis unfolding toBuffer_def by (rule arg_cong)
qed

lemma reserve_props:
  assumes "wf_stream s"
  shows "wf_stream (reserve n s)"
    and "contents (reserve n s) = contents s"
    and "out_offset (reserve n s) + n \<le> length (buffers (reserve n s) ! out_buffer (reserve n s))"
proof -
  let ?cur = "buffers s ! out_buffer s"
  from assms have cur: "out_buffer s < length (buffers s)" by (simp add: wf_stream_def)
  show "wf_stream (reserve n s)"
    using assms
    by (auto simp: reserve_def wf_stream_def flush_def Let_def list_all_iff nth_append)
  show "contents (reserve n s) = contents s"
  proof (cases "out_offset s + n < length ?cur")
    case True then show ?thesis by (simp add: reserve_def)
  next
    case False
    let ?z = "replicate (max (byteLength s + out_offset s) n) (0::byte)"
    have "toBuffer (reserve n s)
          = concat (map (\<lambda>(b, n). take n ((buffers s @ [?z]) ! b)) (pieces s))
            @ take (out_offset s) ((buffers s @ [?z]) ! out_buffer s)"
      using False by (simp add: reserve_def flush_def Let_def toBuffer_def)
    also have "\<dots> = toBuffer s @ take (out_offset s) ?cur"
      by (simp only: toBuffer_append_buffer[OF assms]) (simp add: cur nth_append)
    finally show ?thesis using False
      by (simp add: contents_def reserve_def flush_def Let_def)
  qed
  show "out_offset (reserve n s) + n \<le> length (buffers (reserve n s) ! out_buffer (reserve n s))"
    by (auto simp: reserve_def flush_def Let_def)
qed

lemma store_fits:
  "pos + length bs \<le> length buf \<Longrightarrow>
     length (store pos bs buf) = length buf \<and> take (pos + length bs) (store pos bs buf) = take pos buf @ bs"
  by (simp add: store_def)

lemma toBuffer_poke:
  assumes "list_all (\<lambda>(b, n). b \<noteq> c) (pieces s)"
  shows "toBuffer (poke c pos bs s) = toBuffer s"
proof -
  have "map (\<lambda>(b, n). take n ((buffers s)[c := store pos bs (buffers s ! c)] ! b)) (pieces s)
        = map (\<lambda>(b, n). take n (buffers s ! b)) (pieces s)"
  proof (rule map_cong[OF refl])
    fix p assume "p \<in> set (pieces s)"
    with assms have "fst p \<noteq> c" by (auto simp: list_all_iff)
    then show "(case p of (b, n) \<Rightarrow> take n ((buffers s)[c := store pos bs (buffers s ! c)] ! b))
               = (case p of (b, n) \<Rightarrow> take n (buffers s ! b))"
      by (cases p) simp
  qed
  then have "concat (map (\<lambda>(b, n). take n ((buffers s)[c := store pos bs (buffers s ! c)] ! b)) (pieces s))
        = concat (map (\<lambda>(b, n). take n (buffers s ! b)) (pieces s))"
    by (rule arg_cong)
  moreover have "toBuffer (poke c pos bs s)
     = concat (map (\<lambda>(b, n). take n ((buffers s)[c := store pos bs (buffers s ! c)] ! b)) (pieces s))"
    by (simp add: toBuffer_def poke_def)
  ultimately show ?thesis by (simp only: toBuffer_def)
qed

lemma wf_pieces_current:
  "wf_stream s \<Longrightarrow> list_all (\<lambda>(b, n). b \<noteq> out_buffer s) (pieces s)"
  by (auto simp: wf_stream_def list_all_iff)

lemma writeBytes_props:
  assumes "wf_stream s" and "length bs = n"
  shows "wf_stream (writeBytes n bs s)" and "contents (writeBytes n bs s) = contents s @ bs"
proof -
  let ?s1 = "reserve n s"
  let ?cur = "buffers ?s1 ! out_buffer ?s1"
  note r = reserve_props[OF assms(1), of n]
  from r(1) have cur: "out_buffer ?s1 < length (buffers ?s1)"
    by (auto simp: wf_stream_def)
  from r(3) assms(2) have fit: "out_offset ?s1 + length bs \<le> length ?cur" by simp
  note st = store_fits[OF fit]
  show "wf_stream (writeBytes n bs s)"
    using r(1) r(3) st assms(2)
    by (auto simp: writeBytes_def Let_def poke_def wf_stream_def list_all_iff)
  have tb: "toBuffer (poke (out_buffer ?s1) (out_offset ?s1) bs ?s1) = toBuffer ?s1"
    by (rule toBuffer_poke[OF wf_pieces_current[OF r(1)]])
  then have tb': "toBuffer (writeBytes n bs s) = toBuffer ?s1"
    by (simp add: writeBytes_def Let_def toBuffer_def)
  have "take (out_offset ?s1 + n) (buffers (writeBytes n bs s) ! out_buffer ?s1)
          = take (out_offset ?s1) ?cur @ bs"
    using cur st assms(2) by (simp add: writeBytes_def Let_def poke_def)
  then show "contents (writeBytes n bs s) = contents s @ bs"
    using tb' r(2) by (simp add: contents_def writeBytes_def Let_def poke_def)
qed

lemma le16_length [simp]: "length (le16 v) = 2" by (simp add: le16_def)
lemma le32_length [simp]: "length (le32 v) = 4" by (simp add: le32_def)
lemma le64_length [simp]: "length (le64 v) = 8" by (simp add: le64_def)

lemma writeUint8_props:
  "wf_stream s \<Longrightarrow> wf_stream (writeUint8 v s)"
  "wf_stream s \<Longrightarrow> contents (writeUint8 v s) = contents s @ [word_of_int v]"
  by (simp_all add: writeUint8_def writeBytes_props)

lemma writeUint16_props:
  "wf_stream s \<Longrightarrow> wf_stream (writeUint16 v s)"
  "wf_stream s \<Longrightarrow> contents (writeUint16 v s) = contents s @ le16 v"
  by (simp_all add: writeUint16_def writeBytes_props)

lemma writeUint32_props:
  "wf_stream s \<Longrightarrow> wf_stream (writeUint32 v s)"
  "wf_stream s \<Longrightarrow> contents (writeUint32 v s) = contents s @ le32 v"
  by (simp_all add: writeUint32_def writeBytes_props)

lemma writeInt32_props:
  "wf_stream s \<Longrightarrow> wf_stream (writeInt32 v s)"
  "wf_stream s \<Longrightarrow> contents (writeInt32 v s) = contents s @ le32 v"
  by (simp_all add: writeInt32_def writeBytes_props)

lemma writeUint64_props:
  "wf_stream s \<Longrightarrow> wf_stream (writeUint64 v s)"
  "wf_stream s \<Longrightarrow> contents (writeUint64 v s) = contents s @ le64 v"
  by (simp_all add: writeUint64_def writeBytes_props)

lemma writeInt64_props:
  "wf_stream s \<Longrightarrow> wf_stream (writeInt64 v s)"
  "wf_stream s \<Longrightarrow> contents (writeInt64 v s) = contents s @ le64 v"
  by (simp_all add: writeInt64_def writeBytes_props)

definition soia_stream :: OutputStream where
  "soia_stream = \<lparr>buffers = [soia @ replicate 124 0], out_buffer = 0, out_offset = 4, pieces = [], byteLength = 0\<rparr>"

lemma js_soia: "js ''soia'' = [115, 111, 105, 97]" by (simp add: js_def)

lemma encodeInto_soia: "encodeInto [115, 111, 105, 97] 128 = (4, [115, 111, 105, 97])"
  by (simp add: encodeInto.simps utf8_def is_high_surrogate_def is_low_surrogate_def)

lemma replicate_128: "replicate 128 (0::byte) = replicate 4 0 @ replicate 124 0"
  by (simp flip: replicate_add)

lemma putUtf8String_soia: "putUtf8String (js ''soia'') new_OutputStream = Some (4, soia_stream)"
  unfolding putUtf8String_def js_soia
  apply (subst putUtf8String_loop.simps)
  apply (simp add: new_OutputStream_def encodeInto_soia poke_def store_def soia_stream_def soia_def replicate_128)
  done

lemma wf_soia_stream: "wf_stream soia_stream"
  by (simp add: wf_stream_def soia_stream_def soia_def)

lemma contents_soia_stream: "contents soia_stream = soia"
  by (simp add: contents_def soia_stream_def toBuffer_def soia_def)

lemma toBytes_eq:
  "toBytes P ser input = (case encode P ser input soia_stream of Inl e \<Rightarrow> Inl e | Inr s \<Rightarrow> Inr (finalize s))"
  by (simp add: toBytes_def putUtf8String_soia)

lemma Int32Serializer_encode_props:
  assumes "wf_stream s"
  shows "wf_stream (Int32Serializer_encode n s)"
    and "contents (Int32Serializer_encode n s) = contents s @
      (if - 256 \<le> n \<and> n \<le> - 1 then [235, word_of_int (n + 256)]
       else if - 65536 \<le> n \<and> n \<le> - 257 then 236 # le16 (n + 65536)
       else if n < - 65536 then 237 # le32 (max n (- (2 ^ 31)))
       else if n \<le> 231 then [word_of_int n]
       else if n < 65536 then 232 # le16 n
       else 233 # le32 (min n (2 ^ 31 - 1)))"
  using assms
  by (auto simp: Int32Serializer_encode_def writeUint8_props writeUint16_props writeUint32_props
      writeInt32_props max_def min_def)

lemma bytesOf_toBytes:
  assumes "encode P ser input soia_stream = Inr s"
  shows "bytesOf (toBytes P ser input) = Inr (contents s)"
  using assms by (simp add: toBytes_eq bytesOf_def toBuffer_finalize)

section \<open>Int32Serializer.encode\<close>

lemma int32_bytes:
  "bytesOf (toBytes P (PrimitiveSerializer P_int32) (VNumber (Finite (of_int n)))) =
     Inr (soia @
       (if - 256 \<le> n \<and> n \<le> - 1 then [235, word_of_int (n + 256)]
        else if - 65536 \<le> n \<and> n \<le> - 257 then 236 # le16 (n + 65536)
        else if n < - 65536 then 237 # le32 (max n (- (2 ^ 31)))
        else if n \<le> 231 then [word_of_int n]
        else if n < 65536 then 232 # le16 n
        else 233 # le32 (min n (2 ^ 31 - 1))))"
proof -
  have "encode P (PrimitiveSerializer P_int32) (VNumber (Finite (of_int n))) soia_stream
        = Inr (Int32Serializer_encode n soia_stream)"
    by simp
  from bytesOf_toBytes[OF this] show ?thesis
    by (simp only: Int32Serializer_encode_props(2)[OF wf_soia_stream] contents_soia_stream)
qed

text \<open>
  C5. For every integer \<open>n\<close> (in particular every int32 value), the bytes that
  \<open>toBytes\<close> of the int32 serializer produces after the magic follow the branches in
  the stated order: \<open>235\<close> and one byte for \<open>-256 \<le> n \<le> -1\<close>; \<open>236\<close> and a
  little-endian u16 for \<open>-65536 \<le> n \<le> -257\<close>; \<open>237\<close> and a little-endian i32,
  clamped at \<open>-2^31\<close>, below; the single byte \<open>n\<close> for \<open>0 \<le> n \<le> 231\<close>; \<open>232\<close> and
  a u16 below 65536; else \<open>233\<close> and a u32 clamped at \<open>2^31 - 1\<close>. The value 232 is
  encoded as \<open>e8 e8 00\<close> and -257 as \<open>ec ff fe\<close>.
\<close>

theorem int32_encode_wire_branches:
  "bytesOf (toBytes P (PrimitiveSerializer P_int32) (VNumber (Finite (of_int n)))) =
     Inr (soia @
       (if - 256 \<le> n \<and> n \<le> - 1 then [235, word_of_int (n + 256)]
        else if - 65536 \<le> n \<and> n \<le> - 257 then 236 # le16 (n + 65536)
        else if n < - 65536 then 237 # le32 (max n (- (2 ^ 31)))
        else if n \<le> 231 then [word_of_int n]
        else if n < 65536 then 232 # le16 n
        else 233 # le32 (min n (2 ^ 31 - 1))))
   \<and> bytesOf (toBytes P (PrimitiveSerializer P_int32) (VNumber (Finite 232)))
       = Inr (soia @ [0xe8, 0xe8, 0x00])
   \<and> bytesOf (toBytes P (PrimitiveSerializer P_int32) (VNumber (Finite (- 257))))
       = Inr (soia @ [0xec, 0xff, 0xfe])"
proof (intro conjI)
  show "bytesOf (toBytes P (PrimitiveSerializer P_int32) (VNumber (Finite 232)))
       = Inr (soia @ [0xe8, 0xe8, 0x00])"
    using int32_bytes[of P 232] by (simp add: le16_def)
  show "bytesOf (toBytes P (PrimitiveSerializer P_int32) (VNumber (Finite (- 257))))
       = Inr (soia @ [0xec, 0xff, 0xfe])"
    using int32_bytes[of P "- 257"] by (simp add: le16_def)
qed (rule int32_bytes)

theorem int32_encode_wire_branches_witness:
  "bytesOf (toBytes platform0 (PrimitiveSerializer P_int32) (VNumber (Finite (- 70000))))
     = Inr (soia @ [237, 0x90, 0xee, 0xfe, 0xff])"
  using int32_encode_wire_branches[of platform0 "- 70000"] by (simp add: le32_def)

section \<open>Int64Serializer.toJson and Uint64Serializer.toJson\<close>

lemma digits_length_bound: "length (digits n) \<le> k \<Longrightarrow> n < 10 ^ k"
proof (induction n arbitrary: k rule: digits.induct)
  case (1 n)
  show ?case
  proof (cases "n < 10")
    case True
    from "1.prems" have "k \<ge> 1" by (subst (asm) digits.simps) (simp add: True)
    then have "(10::nat) ^ 1 \<le> 10 ^ k" by (intro power_increasing) auto
    with True show ?thesis by simp
  next
    case False
    from "1.prems" False have len: "length (digits (n div 10)) + 1 \<le> k"
      by (subst (asm) digits.simps) simp
    then obtain k' where k: "k = Suc k'" by (cases k) auto
    with len have "length (digits (n div 10)) \<le> k'" by simp
    from "1.IH"[OF False this] have "n div 10 < 10 ^ k'" .
    then have "n < 10 * 10 ^ k'" by (simp add: less_mult_imp_div_less mult.commute)
    with k show ?thesis by simp
  qed
qed

lemma Int64_toJson_clamps:
  "Int64Serializer_toJson x =
     (if \<bar>x\<bar> \<le> 2 ^ 53 - 1 then JNumber (Finite (of_int x))
      else JString (BigInt_toString (max (- (2 ^ 63)) (min x (2 ^ 63 - 1)))))"
proof (cases "\<bar>x\<bar> \<le> 2 ^ 53 - 1")
  case True
  then show ?thesis by (simp add: Int64Serializer_toJson_def abs_le_iff)
next
  case False
  then have out: "\<not> (- 9007199254740991 \<le> x \<and> x \<le> 9007199254740991)"
    by (simp add: abs_le_iff) linarith
  show ?thesis
  proof (cases "length (BigInt_toString x) \<le> 18")
    case short: True
    have "- (10 ^ 18) < x \<and> x < 10 ^ 18"
    proof (cases "x < 0")
      case True
      with short have "length (digits (nat (- x))) \<le> 17" by (simp add: BigInt_toString_def)
      from digits_length_bound[OF this] have "nat (- x) < 10 ^ 17" .
      with True have "- x < 10 ^ 17" by (simp add: nat_less_iff)
      with True show ?thesis by simp
    next
      case False
      with short have "length (digits (nat x)) \<le> 18" by (simp add: BigInt_toString_def)
      from digits_length_bound[OF this] have "nat x < 10 ^ 18" .
      with False have "x < 10 ^ 18" by (simp add: nat_less_iff)
      with False show ?thesis by simp
    qed
    then have "max (- (2 ^ 63)) (min x (2 ^ 63 - 1)) = x" by simp
    with out short False show ?thesis by (simp add: Int64Serializer_toJson_def Let_def)
  next
    case long: False
    show ?thesis using out long False
      by (auto simp add: Int64Serializer_toJson_def Let_def MIN_INT64_def MAX_INT64_def
            max_def min_def)
  qed
qed

lemma Uint64_toJson_clamps:
  "Uint64Serializer_toJson x =
     (if x \<le> 2 ^ 53 - 1 then JNumber (Finite (of_int (max 0 x)))
      else JString (BigInt_toString (min x (2 ^ 64 - 1))))"
  by (auto simp add: Uint64Serializer_toJson_def MAX_UINT64_def max_def min_def)

text \<open>
  C6, as stated, fails at the lower bound: an int64 input below the range is rendered as
  \<open>-9223372036854775808\<close>, that is \<open>-2^63\<close>, and not as \<open>-(2^63 - 1)\<close>.
\<close>

theorem int64_toJson_lower_clamp_counterexample:
  "Int64Serializer_toJson (- 9223372036854775809) = JString (js ''-9223372036854775808'')
   \<and> JString (js ''-9223372036854775808'') \<noteq> JString (BigInt_toString (- (2 ^ 63 - 1)))"
  by (simp add: Int64Serializer_toJson_def BigInt_toString_def digits.simps js_def
        MIN_INT64_def MAX_INT64_def Let_def)

text \<open>
  C6, amended. \<open>toJson\<close> of the int64 serializer clamps its input to
  \<open>[-2^63, 2^63 - 1]\<close> and \<open>toJson\<close> of the uint64 serializer to \<open>[0, 2^64 - 1]\<close>. For
  int64 an input of absolute value at most \<open>2^53 - 1\<close> is rendered as a JSON number and
  any other input as the decimal string of the clamped value; for uint64 an input of at
  most \<open>2^53 - 1\<close> is rendered as a JSON number (0 for a negative input) and a larger one
  as the decimal string of the clamped value.
\<close>

theorem int64_uint64_toJson_clamp:
  "Int64Serializer_toJson x =
     (if \<bar>x\<bar> \<le> 2 ^ 53 - 1 then JNumber (Finite (of_int x))
      else JString (BigInt_toString (max (- (2 ^ 63)) (min x (2 ^ 63 - 1)))))
   \<and> Uint64Serializer_toJson y =
     (if y \<le> 2 ^ 53 - 1 then JNumber (Finite (of_int (max 0 y)))
      else JString (BigInt_toString (min y (2 ^ 64 - 1))))"
  by (simp only: Int64_toJson_clamps Uint64_toJson_clamps)

theorem int64_uint64_toJson_clamp_witness:
  "Int64Serializer_toJson (- 9223372036854775809) = JString (BigInt_toString (- (2 ^ 63)))
   \<and> Uint64Serializer_toJson 18446744073709551616 = JString (BigInt_toString (2 ^ 64 - 1))"
  using int64_uint64_toJson_clamp[of "- 9223372036854775809" "18446744073709551616"] by simp

section \<open>BoolSerializer.fromJson\<close>

text \<open>
  C10. \<open>fromJson\<close> of the bool serializer maps the JSON string \<open>"0"\<close> to false and every
  other non-empty JSON string, \<open>"false"\<close> included, to true; the empty string, the number
  0, null and false all map to false.
\<close>

theorem bool_fromJson_strings:
  "\<not> BoolSerializer_fromJson (JString (js ''0''))
   \<and> (\<forall>s. s \<noteq> [] \<and> s \<noteq> js ''0'' \<longrightarrow> BoolSerializer_fromJson (JString s))
   \<and> BoolSerializer_fromJson (JString (js ''false''))
   \<and> \<not> BoolSerializer_fromJson (JString [])
   \<and> \<not> BoolSerializer_fromJson (JNumber (Finite 0))
   \<and> \<not> BoolSerializer_fromJson JNull
   \<and> \<not> BoolSerializer_fromJson (JBoolean False)"
  by (simp add: BoolSerializer_fromJson_def number_truthy_def js_def)

theorem bool_fromJson_strings_witness:
  "js ''true'' \<noteq> [] \<and> js ''true'' \<noteq> js ''0'' \<and> BoolSerializer_fromJson (JString (js ''true''))"
proof -
  have h: "js ''true'' \<noteq> [] \<and> js ''true'' \<noteq> js ''0''" by (simp add: js_def)
  with bool_fromJson_strings show ?thesis by blast
qed

section \<open>Timestamp.fromUnixMillis\<close>

lemma fromUnixMillis_raises_iff: "(\<exists>e. fromUnixMillis x = Inl e) \<longleftrightarrow> x = NaN"
  by (cases x) (auto simp: fromUnixMillis_def number_le_def Number_isNaN_def Timestamp_MIN_def
      Timestamp_MAX_def)

lemma fromUnixMillis_low:
  "number_le x (Finite (- 8640000000000000)) \<Longrightarrow> fromUnixMillis x = Inr Timestamp_MIN"
  by (simp add: fromUnixMillis_def Timestamp_MIN_def)

lemma fromUnixMillis_high:
  "number_le (Finite 8640000000000000) x \<Longrightarrow> fromUnixMillis x = Inr Timestamp_MAX"
  by (cases x) (auto simp: fromUnixMillis_def number_le_def Number_isNaN_def Timestamp_MIN_def
      Timestamp_MAX_def)

lemma fromUnixMillis_mid:
  assumes "- 8640000000000000 < r" and "r < 8640000000000000"
  shows "fromUnixMillis (Finite r) = Inr (Timestamp (Finite (of_int \<lfloor>r + 1 / 2\<rfloor>)))"
    and "- 8640000000000000 \<le> \<lfloor>r + 1 / 2\<rfloor>" and "\<lfloor>r + 1 / 2\<rfloor> \<le> 8640000000000000"
proof -
  show "fromUnixMillis (Finite r) = Inr (Timestamp (Finite (of_int \<lfloor>r + 1 / 2\<rfloor>)))"
    using assms by (simp add: fromUnixMillis_def number_le_def Timestamp_MIN_def Timestamp_MAX_def)
  have "(- 8640000000000000 :: real) = of_int (- 8640000000000000)" by simp
  then have "of_int (- 8640000000000000) \<le> r + 1 / 2" using assms(1) by linarith
  then show "- 8640000000000000 \<le> \<lfloor>r + 1 / 2\<rfloor>" by (simp only: le_floor_iff)
  have "r + 1 / 2 < of_int 8640000000000000 + 1" using assms(2) by simp
  then have "\<lfloor>r + 1 / 2\<rfloor> < 8640000000000000 + 1" by (simp only: floor_less_iff)
  then show "\<lfloor>r + 1 / 2\<rfloor> \<le> 8640000000000000" by simp
qed

lemma bigint_fromJson_number_raises_iff:
  "(\<exists>e. AbstractBigIntSerializer_fromJson P (JNumber x) = Inl e)
     \<longleftrightarrow> x = NaN \<or> x = PosInfinity \<or> x = NegInfinity"
  by (cases x) (auto split: sum.splits)

text \<open>
  C9, as stated, fails in its last part: \<open>fromUnixMillis(NaN)\<close> is not the only numeric
  input that raises. \<open>fromJson\<close> of the int64 serializer raises a RangeError for the JSON
  number \<open>Infinity\<close> (the value \<open>JSON.parse\<close> gives for \<open>1e999\<close>): \<open>BigInt(Infinity)\<close>
  raises, and so does \<open>BigInt(Math.round(Infinity))\<close> in the handler.
\<close>

theorem int64_fromJson_infinity_counterexample:
  "fromJson platform0 (PrimitiveSerializer P_int64) (JNumber PosInfinity) False
     = Inl (Throws RangeError)"
  by simp

text \<open>
  C9, amended. \<open>Timestamp.fromUnixMillis\<close> raises if and only if its input is NaN. Any
  other input at or below \<open>-8640000000000000\<close> (\<open>-Infinity\<close> included) gives
  \<open>Timestamp.MIN\<close>, any other input at or above \<open>8640000000000000\<close> gives
  \<open>Timestamp.MAX\<close>, and an input strictly between the bounds gives the timestamp of
  the nearest integer, which lies within the bounds. NaN is the only input for which the
  construction of a timestamp raises, but not the only numeric input for which the library
  raises: \<open>fromJson\<close> of the int64 and uint64 serializers raises for a JSON number if and
  only if it is NaN, \<open>Infinity\<close> or \<open>-Infinity\<close>.
\<close>

theorem fromUnixMillis_clamps_raises_on_NaN_only:
  "((\<exists>e. fromUnixMillis x = Inl e) \<longleftrightarrow> x = NaN)
   \<and> (number_le x (Finite (- 8640000000000000)) \<longrightarrow> fromUnixMillis x = Inr Timestamp_MIN)
   \<and> (number_le (Finite 8640000000000000) x \<longrightarrow> fromUnixMillis x = Inr Timestamp_MAX)
   \<and> (- 8640000000000000 < r \<and> r < 8640000000000000 \<longrightarrow>
        fromUnixMillis (Finite r) = Inr (Timestamp (Finite (of_int \<lfloor>r + 1 / 2\<rfloor>)))
        \<and> - 8640000000000000 \<le> \<lfloor>r + 1 / 2\<rfloor> \<and> \<lfloor>r + 1 / 2\<rfloor> \<le> 8640000000000000)
   \<and> ((\<exists>e. fromJson P (PrimitiveSerializer P_int64) (JNumber y) keep = Inl e)
        \<longleftrightarrow> y = NaN \<or> y = PosInfinity \<or> y = NegInfinity)
   \<and> ((\<exists>e. fromJson P (PrimitiveSerializer P_uint64) (JNumber y) keep = Inl e)
        \<longleftrightarrow> y = NaN \<or> y = PosInfinity \<or> y = NegInfinity)"
proof (intro conjI impI)
  show "(\<exists>e. fromUnixMillis x = Inl e) \<longleftrightarrow> x = NaN" by (rule fromUnixMillis_raises_iff)
  show "fromUnixMillis x = Inr Timestamp_MIN" if "number_le x (Finite (- 8640000000000000))"
    using that by (rule fromUnixMillis_low)
  show "fromUnixMillis x = Inr Timestamp_MAX" if "number_le (Finite 8640000000000000) x"
    using that by (rule fromUnixMillis_high)
  show "fromUnixMillis (Finite r) = Inr (Timestamp (Finite (of_int \<lfloor>r + 1 / 2\<rfloor>)))"
    if "- 8640000000000000 < r \<and> r < 8640000000000000"
    using that fromUnixMillis_mid(1) by blast
  show "- 8640000000000000 \<le> \<lfloor>r + 1 / 2\<rfloor>" if "- 8640000000000000 < r \<and> r < 8640000000000000"
    using that fromUnixMillis_mid(2) by blast
  show "\<lfloor>r + 1 / 2\<rfloor> \<le> 8640000000000000" if "- 8640000000000000 < r \<and> r < 8640000000000000"
    using that fromUnixMillis_mid(3) by blast
  show "(\<exists>e. fromJson P (PrimitiveSerializer P_int64) (JNumber y) keep = Inl e)
        \<longleftrightarrow> y = NaN \<or> y = PosInfinity \<or> y = NegInfinity"
    using bigint_fromJson_number_raises_iff[of P y] by (auto split: sum.splits)
  show "(\<exists>e. fromJson P (PrimitiveSerializer P_uint64) (JNumber y) keep = Inl e)
        \<longleftrightarrow> y = NaN \<or> y = PosInfinity \<or> y = NegInfinity"
    using bigint_fromJson_number_raises_iff[of P y] by (auto split: sum.splits)
qed

theorem fromUnixMillis_clamps_raises_on_NaN_only_witness:
  "fromUnixMillis (Finite 8640000000000001) = Inr Timestamp_MAX
   \<and> fromUnixMillis NegInfinity = Inr Timestamp_MIN
   \<and> fromUnixMillis (Finite 2.8) = Inr (Timestamp (Finite 3))
   \<and> (\<exists>e. fromUnixMillis NaN = Inl e)"
proof -
  have a: "number_le (Finite 8640000000000000) (Finite 8640000000000001)"
    by (simp add: number_le_def)
  have b: "number_le NegInfinity (Finite (- 8640000000000000))"
    by (simp add: number_le_def)
  have c: "- 8640000000000000 < (2.8 :: real) \<and> (2.8 :: real) < 8640000000000000" by simp
  have d: "\<lfloor>(2.8 :: real) + 1 / 2\<rfloor> = 3" by simp
  from fromUnixMillis_clamps_raises_on_NaN_only[of "Finite 8640000000000001" 0 platform0 NaN False] a
  have 1: "fromUnixMillis (Finite 8640000000000001) = Inr Timestamp_MAX" by blast
  from fromUnixMillis_clamps_raises_on_NaN_only[of NegInfinity "2.8" platform0 NaN False] b c
  have 2: "fromUnixMillis NegInfinity = Inr Timestamp_MIN"
    and 3: "fromUnixMillis (Finite 2.8) = Inr (Timestamp (Finite (of_int \<lfloor>(2.8 :: real) + 1 / 2\<rfloor>)))"
    by blast+
  from fromUnixMillis_clamps_raises_on_NaN_only[of NaN 0 platform0 NaN False]
  have 4: "\<exists>e. fromUnixMillis NaN = Inl e" by blast
  from 1 2 3 4 d show ?thesis by simp
qed


section \<open>Decoding zero\<close>

lemma digits_nonempty: "digits n \<noteq> []"
  by (subst digits.simps) simp

lemma digits_eq_zero: "digits n = [48] \<longleftrightarrow> n = 0"
proof (cases "n < 10")
  case True
  then have "digits n = [of_nat (48 + n)]" by (subst digits.simps) simp
  moreover have "(of_nat (48 + n) :: 16 word) = 48 \<longleftrightarrow> n = 0"
  proof
    assume a: "(of_nat (48 + n) :: 16 word) = 48"
    have "unat (of_nat (48 + n) :: 16 word) = (48 + n) mod 2 ^ 16"
      by (simp only: unat_of_nat) simp
    with True have "unat (of_nat (48 + n) :: 16 word) = 48 + n" by simp
    with a show "n = 0" by simp
  qed simp
  ultimately show ?thesis by simp
next
  case False
  then have "digits n = digits (n div 10) @ [of_nat (48 + n mod 10)]"
    by (subst digits.simps) simp
  with digits_nonempty[of "n div 10"] False show ?thesis
    by (cases "digits (n div 10)") auto
qed


lemma digits_eq_zero': "[48] = digits n \<longleftrightarrow> n = 0"
  using digits_eq_zero[of n] by auto

text \<open>An enum serializer made by \<open>parseTypeDescriptorFromJson\<close>.\<close>

definition parsed_enum :: "serializer \<Rightarrow> bool" where
  "parsed_enum ser =
     (case ser of
        EnumSerializerImpl create tok rid flds removed \<Rightarrow> create = OfTypeDescriptor
      | _ \<Rightarrow> False)"

definition reserved_unknown :: "serializer \<Rightarrow> bool" where
  "reserved_unknown ser =
     (case ser of
        EnumSerializerImpl create tok rid flds removed \<Rightarrow>
          list_all (\<lambda>f. variant_number f \<noteq> 0 \<and> variant_name f \<noteq> js ''0'') flds
      | _ \<Rightarrow> True)"

definition zero_stream :: "bool \<Rightarrow> InputStream" where
  "zero_stream keep = (new_InputStream (soia @ [0]) keep)\<lparr>in_offset := 4\<rparr>"

lemma getUint8_zero: "getUint8 (zero_stream keep) (in_offset (zero_stream keep)) = Inr 0"
  by (simp add: getUint8_def zero_stream_def new_InputStream_def soia_def)

lemma readUint8_zero:
  "readUint8 (zero_stream keep) = Inr (0, (zero_stream keep)\<lparr>in_offset := 5\<rparr>)"
  by (simp add: readUint8_def getUint8_zero) (simp add: zero_stream_def)

lemma decodeNumber_zero:
  "decodeNumber P (zero_stream keep) = Inr (Num (Finite 0), (zero_stream keep)\<lparr>in_offset := 5\<rparr>)"
  by (simp add: decodeNumber_def readUint8_zero)

lemma primitive_decode_zero:
  "\<exists>s. primitive_decode P p (zero_stream keep) = Inr (defaultValue (PrimitiveSerializer p), s)"
  by (cases p)
    (simp_all add: BoolSerializer_decode_def Int32Serializer_decode_def FloatSerializer_decode_def
      BigIntSerializer_decode_def TimestampSerializer_decode_def StringSerializer_decode_def
      ByteStringSerializer_decode_def decodeNumber_zero decodeBigInt_def readUint8_zero
      numeric_truthy_def number_truthy_def ToInt32_def fromUnixMillis_def number_le_def
      Timestamp_MIN_def Timestamp_MAX_def Timestamp_UNIX_EPOCH_def)

lemma enum_lookup_zero:
  assumes "list_all (\<lambda>f. variant_number f \<noteq> 0 \<and> variant_name f \<noteq> js ''0'') flds"
  shows "enum_fieldMapping flds [48] = Some UNKNOWN_FIELD"
proof -
  let ?entries = "\<lambda>fs. concat (map (\<lambda>f. [(variant_name f, f), (digits (variant_number f), f)]) fs)"
  have js0: "js ''0'' = [48]" by (simp add: js_def)
  have no: "[48] \<notin> fst ` set (?entries flds)"
    using assms by (auto simp: list_all_iff js0 digits_eq_zero')
  have "map_of (rev (?entries (UNKNOWN_FIELD # flds))) [48]
        = map_of (rev (?entries flds) @ rev (?entries [UNKNOWN_FIELD])) [48]"
    by simp
  also have "\<dots> = map_of (rev (?entries [UNKNOWN_FIELD])) [48]"
    using no by (simp add: map_add_def map_of_eq_None_iff[THEN iffD2])
  also have "\<dots> = Some UNKNOWN_FIELD"
    by (simp add: UNKNOWN_FIELD_def digits.simps)
  finally show ?thesis by (simp add: enum_fieldMapping_def)
qed

lemma decode_zero:
  assumes "reserved_unknown ser" and "\<And>other. ser \<noteq> OptionalSerializerImpl other"
    and "\<not> parsed_enum ser"
  shows "\<exists>s. decode P ser (zero_stream keep) = Inr (defaultValue ser, s)"
proof (cases ser)
  case (PrimitiveSerializer p)
  then show ?thesis using primitive_decode_zero by simp
next
  case (OptionalSerializerImpl other)
  with assms(2)[of other] show ?thesis by simp
next
  case (ArraySerializerImpl item k)
  then show ?thesis by (simp add: readUint8_zero)
next
  case (StructSerializerImpl tok rid flds removed)
  then show ?thesis by (simp add: readUint8_zero)
next
  case (EnumSerializerImpl create tok rid flds removed)
  with assms(1) have "enum_fieldMapping flds [48] = Some UNKNOWN_FIELD"
    by (simp add: reserved_unknown_def enum_lookup_zero)
  moreover from assms(3) EnumSerializerImpl have "create = OfModuleClass"
    by (cases create) (simp_all add: parsed_enum_def)
  ultimately show ?thesis using EnumSerializerImpl
    by (simp add: getUint8_zero decodeNumber_zero BigInt_toString_def digits.simps
          UNKNOWN_FIELD_def)
qed

lemma fromBytes_zero:
  assumes "reserved_unknown ser" and "\<And>other. ser \<noteq> OptionalSerializerImpl other"
    and "\<not> parsed_enum ser"
  shows "fromBytes P ser (soia @ [0]) keep = Inr (defaultValue ser)"
proof -
  from decode_zero[OF assms(1) assms(2) assms(3)] obtain s where
    "decode P ser (zero_stream keep) = Inr (defaultValue ser, s)" by blast
  then show ?thesis by (simp add: fromBytes_def zero_stream_def)
qed

lemma primitive_fromJson_zero:
  "primitive_fromJson P p (JNumber (Finite 0)) = Inr (defaultValue (PrimitiveSerializer p))"
  by (cases p)
    (simp_all add: BoolSerializer_fromJson_def Int32Serializer_fromJson_def
      FloatSerializer_fromJson_def StringSerializer_fromJson_def ByteStringSerializer_fromJson_def
      is_zero_def number_truthy_def ToInt32_def fromUnixMillis_def number_le_def
      Timestamp_MIN_def Timestamp_MAX_def Timestamp_UNIX_EPOCH_def)

lemma fromJson_zero:
  assumes "reserved_unknown ser" and "\<And>other. ser \<noteq> OptionalSerializerImpl other"
    and "\<not> parsed_enum ser"
  shows "fromJson P ser (JNumber (Finite 0)) keep = Inr (defaultValue ser)"
proof (cases ser)
  case (PrimitiveSerializer p)
  then show ?thesis using primitive_fromJson_zero by simp
next
  case (OptionalSerializerImpl other)
  with assms(2)[of other] show ?thesis by simp
next
  case (ArraySerializerImpl item k)
  then show ?thesis by (simp add: is_zero_def)
next
  case (StructSerializerImpl tok rid flds removed)
  then show ?thesis by (simp add: number_truthy_def)
next
  case (EnumSerializerImpl create tok rid flds removed)
  with assms(1) have "enum_fieldMapping flds [48] = Some UNKNOWN_FIELD"
    by (simp add: reserved_unknown_def enum_lookup_zero)
  moreover from assms(3) EnumSerializerImpl have "create = OfModuleClass"
    by (cases create) (simp_all add: parsed_enum_def)
  ultimately show ?thesis using EnumSerializerImpl
    by (simp add: BigInt_toString_def digits.simps UNKNOWN_FIELD_def)
qed

lemma optional_zero_delegates:
  "fromBytes P (OptionalSerializerImpl other) (soia @ [0]) keep = fromBytes P other (soia @ [0]) keep"
  "fromJson P (OptionalSerializerImpl other) (JNumber (Finite 0)) keep
     = fromJson P other (JNumber (Finite 0)) keep"
  using getUint8_zero[of keep]
  by (simp_all add: fromBytes_def zero_stream_def)

text \<open>
  C3, as stated, fails for the optional serializer: its decoder delegates every wire
  other than 255, and its \<open>fromJson\<close> every JSON value other than \<open>null\<close>, to the wrapped
  serializer, so a zero byte and the JSON number 0 give the default of the wrapped
  type (the number 0 for \<open>optional<int32>\<close>) and not \<open>null\<close>.
\<close>

theorem optional_zero_counterexample:
  "fromBytes platform0 (OptionalSerializerImpl (PrimitiveSerializer P_int32)) (soia @ [0]) False
     = Inr (VNumber (Finite 0))
   \<and> fromJson platform0 (OptionalSerializerImpl (PrimitiveSerializer P_int32))
       (JNumber (Finite 0)) False = Inr (VNumber (Finite 0))
   \<and> defaultValue (OptionalSerializerImpl (PrimitiveSerializer P_int32)) = VNull"
  using fromBytes_zero[of "PrimitiveSerializer P_int32" platform0 False]
    fromJson_zero[of "PrimitiveSerializer P_int32" platform0 False]
  by (simp add: optional_zero_delegates reserved_unknown_def parsed_enum_def)

text \<open>
  C3, amended. For every serializer \<open>S\<close> that is neither an optional serializer nor an
  enum serializer made by \<open>parseTypeDescriptorFromJson\<close> (an enum serializer keeping
  the number 0 and the key \<open>0\<close> for its \<open>UNKNOWN\<close> field, as the data model requires),
  decoding a buffer whose content after the magic is a single zero byte yields
  \<open>S.defaultValue\<close>, and so does \<open>S.fromJson(0)\<close>. For the optional serializer of \<open>S\<close>
  both calls yield what they yield for \<open>S\<close>, hence the default of \<open>S\<close> and not \<open>null\<close>.
\<close>

theorem zero_decodes_to_default:
  "(reserved_unknown S \<and> \<not> parsed_enum S \<and> (\<forall>other. S \<noteq> OptionalSerializerImpl other) \<longrightarrow>
      fromBytes P S (soia @ [0]) keep = Inr (defaultValue S)
      \<and> fromJson P S (JNumber (Finite 0)) keep = Inr (defaultValue S))
   \<and> fromBytes P (OptionalSerializerImpl S) (soia @ [0]) keep = fromBytes P S (soia @ [0]) keep
   \<and> fromJson P (OptionalSerializerImpl S) (JNumber (Finite 0)) keep
       = fromJson P S (JNumber (Finite 0)) keep"
  using fromBytes_zero[of S P keep] fromJson_zero[of S P keep] optional_zero_delegates[of P S keep]
  by blast

theorem zero_decodes_to_default_witness:
  "fromBytes platform0
     (EnumSerializerImpl OfModuleClass 7 (js ''m:E'')
        [EnumFieldImpl (js ''A'') 1 None,
         EnumFieldImpl (js ''b'') 2 (Some (PrimitiveSerializer P_string))] [])
     (soia @ [0]) True = Inr (VEnum (Some (js ''?'')) None None)
   \<and> fromJson platform0 (OptionalSerializerImpl (PrimitiveSerializer P_string))
        (JNumber (Finite 0)) False = Inr (VString [])"
proof -
  let ?E = "EnumSerializerImpl OfModuleClass 7 (js ''m:E'')
        [EnumFieldImpl (js ''A'') 1 None,
         EnumFieldImpl (js ''b'') 2 (Some (PrimitiveSerializer P_string))] []"
  have e: "reserved_unknown ?E \<and> \<not> parsed_enum ?E \<and> (\<forall>other. ?E \<noteq> OptionalSerializerImpl other)"
    by (simp add: reserved_unknown_def parsed_enum_def js_def)
  have s: "reserved_unknown (PrimitiveSerializer P_string)
           \<and> \<not> parsed_enum (PrimitiveSerializer P_string)
           \<and> (\<forall>other. PrimitiveSerializer P_string \<noteq> OptionalSerializerImpl other)"
    by (simp add: reserved_unknown_def parsed_enum_def)
  from zero_decodes_to_default[of ?E platform0 True] e
  have 1: "fromBytes platform0 ?E (soia @ [0]) True = Inr (defaultValue ?E)" by blast
  from zero_decodes_to_default[of "PrimitiveSerializer P_string" platform0 False] s
  have 2: "fromJson platform0 (OptionalSerializerImpl (PrimitiveSerializer P_string))
             (JNumber (Finite 0)) False = Inr (defaultValue (PrimitiveSerializer P_string))"
    by simp
  from 1 2 show ?thesis by simp
qed


section \<open>The slot-count header of arrays and structs\<close>

lemma encodeUint32_props:
  assumes "wf_stream s" and "n < 4294967296"
  shows "\<exists>s'. encodeUint32 n s = Inr s' \<and> wf_stream s' \<and>
           contents s' = contents s @
             (if n < 232 then [word_of_int (int n)]
              else if n < 65536 then 232 # le16 (int n)
              else 233 # le32 (int n))"
  using assms
  by (auto simp: encodeUint32_def writeUint8_props writeUint16_props writeUint32_props)

lemma writeSlotCount_props:
  assumes "wf_stream s" and "n < 4294967296"
  shows "\<exists>s'. writeSlotCount n s = Inr s' \<and> wf_stream s' \<and>
           contents s' = contents s @
             (if n \<le> 3 then [word_of_int (246 + int n)]
              else 250 # (if n < 232 then [word_of_int (int n)]
                          else if n < 65536 then 232 # le16 (int n)
                          else 233 # le32 (int n)))"
proof (cases "n \<le> 3")
  case True
  with assms show ?thesis by (simp add: writeSlotCount_def writeUint8_props)
next
  case False
  from assms(1) have w: "wf_stream (writeUint8 250 s)" by (rule writeUint8_props)
  from encodeUint32_props[OF w assms(2)] False assms(1) show ?thesis
    by (auto simp: writeSlotCount_def writeUint8_props)
qed

lemma array_of_two_bytes:
  "bytesOf (toBytes P (ArraySerializerImpl (PrimitiveSerializer P_int32) None)
          (VArray [VNumber (Finite 10), VNumber (Finite 11)]))
       = Inr (soia @ [248, 10, 11])"
proof -
  have w1: "wf_stream (writeUint8 248 soia_stream)"
    by (rule writeUint8_props[OF wf_soia_stream])
  have w2: "wf_stream (Int32Serializer_encode 10 (writeUint8 248 soia_stream))"
    by (rule Int32Serializer_encode_props[OF w1])
  have "encode P (ArraySerializerImpl (PrimitiveSerializer P_int32) None)
          (VArray [VNumber (Finite 10), VNumber (Finite 11)]) soia_stream
        = Inr (Int32Serializer_encode 11 (Int32Serializer_encode 10 (writeUint8 248 soia_stream)))"
    by (simp add: writeSlotCount_def)
  from bytesOf_toBytes[OF this] show ?thesis
    by (simp add: Int32Serializer_encode_props(2)[OF w2] Int32Serializer_encode_props(2)[OF w1]
          writeUint8_props(2)[OF wf_soia_stream] contents_soia_stream)
qed

text \<open>
  C1, as stated, fails: an array of two items is written with the wire byte 248, not 249
  (the test suite expects \<open>f8 0a 0b\<close> for \<open>[10, 11]\<close>), so 248 is emitted as a length
  header.
\<close>

theorem array_of_two_header_counterexample:
  "bytesOf (toBytes platform0 (ArraySerializerImpl (PrimitiveSerializer P_int32) None)
          (VArray [VNumber (Finite 10), VNumber (Finite 11)]))
       = Inr (soia @ [248, 10, 11])"
  by (rule array_of_two_bytes)

text \<open>
  C1, amended. For an array of \<open>N\<close> items and for a struct value written with \<open>N\<close>
  slots, the encoder emits the wire byte \<open>246 + N\<close> when \<open>N \<le> 3\<close> (246 for 0, 247 for 1,
  248 for 2, 249 for 3), and 250 followed by \<open>N\<close> in the wire grammar of unsigned numbers
  when \<open>4 \<le> N < 2^32\<close>; 248 is the header of two slots (the enum encoder uses it too,
  for a value variant numbered 5 or more). The header is what \<open>writeSlotCount\<close> appends
  to the stream, and both encoders start with it: the array encoder on the length of
  the array, the struct encoder on the number of slots of the unrecognized fields that
  the instance carries for this serializer, and on \<open>getArrayLength\<close> otherwise.
\<close>

theorem slot_count_header:
  "(wf_stream s \<and> n < 4294967296 \<longrightarrow>
      (\<exists>s'. writeSlotCount n s = Inr s' \<and>
         contents s' = contents s @
           (if n \<le> 3 then [word_of_int (246 + int n)]
            else 250 # (if n < 232 then [word_of_int (int n)]
                        else if n < 65536 then 232 # le16 (int n)
                        else 233 # le32 (int n)))))
   \<and> encode P (ArraySerializerImpl item k) (VArray xs) s =
       (case writeSlotCount (length xs) s of
          Inl e \<Rightarrow> Inl e | Inr s1 \<Rightarrow> encodeItems P item xs s1)
   \<and> encode P (StructSerializerImpl tok rid flds removed) (VStruct ps None) s =
       (case writeSlotCount (getArrayLength flds (VStruct ps None)) s of
          Inl e \<Rightarrow> Inl e
        | Inr s1 \<Rightarrow> encodeSlots P flds (VStruct ps None) 0
                      (getArrayLength flds (VStruct ps None)) s1)
   \<and> (fields_bytes u = Some bytes \<and> fields_token u = tok \<longrightarrow>
        encode P (StructSerializerImpl tok rid flds removed) (VStruct ps (Some u)) s =
          (case writeSlotCount (totalSlots u) s of
             Inl e \<Rightarrow> Inl e
           | Inr s1 \<Rightarrow>
               (case encodeSlots P flds (VStruct ps (Some u)) 0 (recognizedSlots flds removed) s1 of
                  Inl e \<Rightarrow> Inl e
                | Inr s2 \<Rightarrow> Inr (putBytes bytes s2))))"
proof (intro conjI impI)
  show "\<exists>s'. writeSlotCount n s = Inr s' \<and>
         contents s' = contents s @
           (if n \<le> 3 then [word_of_int (246 + int n)]
            else 250 # (if n < 232 then [word_of_int (int n)]
                        else if n < 65536 then 232 # le16 (int n)
                        else 233 # le32 (int n)))"
    if "wf_stream s \<and> n < 4294967296"
    using that writeSlotCount_props[of s n] by blast
  show "encode P (StructSerializerImpl tok rid flds removed) (VStruct ps (Some u)) s =
          (case writeSlotCount (totalSlots u) s of
             Inl e \<Rightarrow> Inl e
           | Inr s1 \<Rightarrow>
               (case encodeSlots P flds (VStruct ps (Some u)) 0 (recognizedSlots flds removed) s1 of
                  Inl e \<Rightarrow> Inl e
                | Inr s2 \<Rightarrow> Inr (putBytes bytes s2)))"
    if "fields_bytes u = Some bytes \<and> fields_token u = tok"
    using that by (simp split: sum.splits)
qed (simp_all split: sum.splits)

theorem slot_count_header_witness:
  "\<exists>s'. writeSlotCount 2 soia_stream = Inr s' \<and> contents s' = soia @ [248]"
proof -
  have "wf_stream soia_stream \<and> (2::nat) < 4294967296" by (simp add: wf_soia_stream)
  with slot_count_header[of soia_stream 2]
  have "\<exists>s'. writeSlotCount 2 soia_stream = Inr s' \<and>
          contents s' = contents soia_stream @ [word_of_int (246 + int 2)]"
    by simp
  then show ?thesis by (simp add: contents_soia_stream)
qed


section \<open>The default instance of a struct\<close>

lemma primitive_isDefault_default: "primitive_isDefault p (defaultValue (PrimitiveSerializer p))"
  by (cases p) (simp_all add: number_truthy_def Timestamp_UNIX_EPOCH_def)

lemma isDefault_defaultValue: "\<not> parsed_enum ser \<Longrightarrow> isDefault ser (defaultValue ser)"
proof (cases ser)
  case (EnumSerializerImpl create tok rid flds removed)
  assume "\<not> parsed_enum ser"
  with EnumSerializerImpl show ?thesis by (cases create) (simp_all add: parsed_enum_def)
qed (simp_all add: primitive_isDefault_default)

lemma field_default_eq: "field_default f = (property f, defaultValue (field_serializer f))"
  by (cases f) simp

lemma field_isDefault_eq: "field_isDefault f v = isDefault (field_serializer f) (getProp v (property f))"
  by (cases f) simp

lemma getArrayLength_default:
  assumes "distinct (map property flds)"
    and "list_all (\<lambda>f. \<not> parsed_enum (field_serializer f)) flds"
  shows "getArrayLength flds (VStruct (map field_default flds) None) = 0"
proof -
  let ?d = "VStruct (map field_default flds) None"
  have "field_isDefault f ?d" if "f \<in> set flds" for f
  proof -
    have fsts: "map fst (map field_default flds) = map property flds"
      by (simp add: field_default_eq o_def)
    have mem: "(property f, defaultValue (field_serializer f)) \<in> set (map field_default flds)"
      using that by (force simp: field_default_eq)
    have "distinct (map fst (map field_default flds))"
      using assms by (simp only: fsts)
    from map_of_is_SomeI[OF this mem]
    have "map_of (map field_default flds) (property f)
                 = Some (defaultValue (field_serializer f))" .
    moreover from that assms(2) have "\<not> parsed_enum (field_serializer f)"
      by (simp add: list_all_iff)
    ultimately show ?thesis by (simp add: field_isDefault_eq isDefault_defaultValue)
  qed
  then have "find (\<lambda>f. \<not> field_isDefault f ?d) (reversedFields flds) = None"
    by (simp add: find_None_iff reversedFields_def)
  then show ?thesis by (simp add: getArrayLength_def)
qed

lemma struct_default_bytes:
  assumes "distinct (map property flds)"
    and "list_all (\<lambda>f. \<not> parsed_enum (field_serializer f)) flds"
  shows "bytesOf (toBytes P (StructSerializerImpl tok rid flds removed)
                    (defaultValue (StructSerializerImpl tok rid flds removed)))
         = Inr (soia @ [246])"
proof -
  have "encode P (StructSerializerImpl tok rid flds removed)
          (defaultValue (StructSerializerImpl tok rid flds removed)) soia_stream
        = Inr (writeUint8 246 soia_stream)"
    by (simp add: getArrayLength_default[OF assms] writeSlotCount_def)
  from bytesOf_toBytes[OF this] show ?thesis
    by (simp add: writeUint8_props(2)[OF wf_soia_stream] contents_soia_stream)
qed

text \<open>
  C2, as stated, fails: the default instance of a struct is written as the single byte
  246 (\<open>f6\<close>), the header of zero slots, not as \<open>00\<close>.
\<close>

theorem struct_default_byte_counterexample:
  "bytesOf (toBytes platform0
      (StructSerializerImpl 1 (js ''m:Point'')
         [StructFieldImpl (js ''x'') (js ''x'') 0 (PrimitiveSerializer P_int32),
          StructFieldImpl (js ''label'') (js ''label'') 1 (PrimitiveSerializer P_string)] [])
      (defaultValue
         (StructSerializerImpl 1 (js ''m:Point'')
            [StructFieldImpl (js ''x'') (js ''x'') 0 (PrimitiveSerializer P_int32),
             StructFieldImpl (js ''label'') (js ''label'') 1 (PrimitiveSerializer P_string)] [])))
     = Inr (soia @ [246])
   \<and> soia @ [246] \<noteq> soia @ [0]"
proof -
  have d: "distinct (map property
         [StructFieldImpl (js ''x'') (js ''x'') 0 (PrimitiveSerializer P_int32),
          StructFieldImpl (js ''label'') (js ''label'') 1 (PrimitiveSerializer P_string)])"
    by (simp add: js_def)
  have e: "list_all (\<lambda>f. \<not> parsed_enum (field_serializer f))
         [StructFieldImpl (js ''x'') (js ''x'') 0 (PrimitiveSerializer P_int32),
          StructFieldImpl (js ''label'') (js ''label'') 1 (PrimitiveSerializer P_string)]"
    by (simp add: parsed_enum_def)
  from struct_default_bytes[OF d e] show ?thesis by simp
qed

text \<open>
  C2, amended. For every struct serializer \<open>S\<close> (whose fields have distinct property
  names, and none of them an enum serializer made by \<open>parseTypeDescriptorFromJson\<close> as
  its type), encoding \<open>S.defaultValue\<close> yields exactly one byte after the magic, and it
  is 246 (\<open>0xf6\<close>).
\<close>

theorem struct_default_encodes_as_246:
  "distinct (map property flds) \<Longrightarrow>
   list_all (\<lambda>f. \<not> parsed_enum (field_serializer f)) flds \<Longrightarrow>
     bytesOf (toBytes P (StructSerializerImpl tok rid flds removed)
                (defaultValue (StructSerializerImpl tok rid flds removed)))
       = Inr (soia @ [246])"
  by (rule struct_default_bytes)

theorem struct_default_encodes_as_246_witness:
  "distinct (map property
      [StructFieldImpl (js ''a'') (js ''a'') 0 (PrimitiveSerializer P_bool),
       StructFieldImpl (js ''b'') (js ''b'') 3 (ArraySerializerImpl (PrimitiveSerializer P_bytes) None),
       StructFieldImpl (js ''c'') (js ''c'') 4
         (EnumSerializerImpl OfModuleClass 3 (js ''m:E'') [EnumFieldImpl (js ''A'') 1 None] [])])
   \<and> list_all (\<lambda>f. \<not> parsed_enum (field_serializer f))
      [StructFieldImpl (js ''a'') (js ''a'') 0 (PrimitiveSerializer P_bool),
       StructFieldImpl (js ''b'') (js ''b'') 3 (ArraySerializerImpl (PrimitiveSerializer P_bytes) None),
       StructFieldImpl (js ''c'') (js ''c'') 4
         (EnumSerializerImpl OfModuleClass 3 (js ''m:E'') [EnumFieldImpl (js ''A'') 1 None] [])]
   \<and> bytesOf (toBytes platform0
        (StructSerializerImpl 2 (js ''m:S'')
          [StructFieldImpl (js ''a'') (js ''a'') 0 (PrimitiveSerializer P_bool),
           StructFieldImpl (js ''b'') (js ''b'') 3 (ArraySerializerImpl (PrimitiveSerializer P_bytes) None),
           StructFieldImpl (js ''c'') (js ''c'') 4
             (EnumSerializerImpl OfModuleClass 3 (js ''m:E'') [EnumFieldImpl (js ''A'') 1 None] [])]
          [1])
        (defaultValue
          (StructSerializerImpl 2 (js ''m:S'')
            [StructFieldImpl (js ''a'') (js ''a'') 0 (PrimitiveSerializer P_bool),
             StructFieldImpl (js ''b'') (js ''b'') 3 (ArraySerializerImpl (PrimitiveSerializer P_bytes) None),
             StructFieldImpl (js ''c'') (js ''c'') 4
               (EnumSerializerImpl OfModuleClass 3 (js ''m:E'') [EnumFieldImpl (js ''A'') 1 None] [])]
            [1])))
      = Inr (soia @ [246])"
proof -
  have d: "distinct (map property
      [StructFieldImpl (js ''a'') (js ''a'') 0 (PrimitiveSerializer P_bool),
       StructFieldImpl (js ''b'') (js ''b'') 3 (ArraySerializerImpl (PrimitiveSerializer P_bytes) None),
       StructFieldImpl (js ''c'') (js ''c'') 4
         (EnumSerializerImpl OfModuleClass 3 (js ''m:E'') [EnumFieldImpl (js ''A'') 1 None] [])])"
    by (simp add: js_def)
  have e: "list_all (\<lambda>f. \<not> parsed_enum (field_serializer f))
      [StructFieldImpl (js ''a'') (js ''a'') 0 (PrimitiveSerializer P_bool),
       StructFieldImpl (js ''b'') (js ''b'') 3 (ArraySerializerImpl (PrimitiveSerializer P_bytes) None),
       StructFieldImpl (js ''c'') (js ''c'') 4
         (EnumSerializerImpl OfModuleClass 3 (js ''m:E'') [EnumFieldImpl (js ''A'') 1 None] [])]"
    by (simp add: parsed_enum_def)
  from struct_default_encodes_as_246[OF d e] d e show ?thesis by blast
qed

section \<open>The method listing of a service\<close>

text \<open>A service with one method, named \<open>GetUser\<close> and numbered 42.\<close>

definition GetUser :: Method where
  "GetUser = \<lparr>method_name = js ''GetUser'', method_number = 42,
              requestSerializer = PrimitiveSerializer P_int32,
              responseSerializer = PrimitiveSerializer P_string\<rparr>"

text \<open>
  C4. The listing is an OK JSON document with one entry per registered method, and the
  entry carries the name of the method under \<open>method\<close> and the type descriptors of its
  serializers under \<open>request\<close> and \<open>response\<close>; but under \<open>number\<close> it carries the
  name again (\<open>number: methodImpl.method.name\<close> in the source), not the number. For the
  service above the entry has \<open>"number": "GetUser"\<close> where the claim requires 42.
\<close>

theorem listing_number_holds_method_name:
  "addMethod GetUser [] = Inr [(42, GetUser)]
   \<and> handleRequest P call [(42, GetUser)] (js ''list'') =
       RawResponse
         (JSON_stringify P
            (JObject
               [(js ''methods'',
                 JArray
                   [JObject
                      [(js ''method'', JString (js ''GetUser'')),
                       (js ''number'', JString (js ''GetUser'')),
                       (js ''request'',
                        JObject [(js ''type'',
                                  JObject [(js ''kind'', JString (js ''primitive'')),
                                           (js ''value'', JString (js ''int32''))]),
                                 (js ''records'', JArray [])]),
                       (js ''response'',
                        JObject [(js ''type'',
                                  JObject [(js ''kind'', JString (js ''primitive'')),
                                           (js ''value'', JString (js ''string''))]),
                                 (js ''records'', JArray [])])]])])
            (js ''  ''))
         ok_json"
  by (simp add: addMethod_def handleRequest_def Object_values_def GetUser_def asJson_def)

section \<open>Byte strings that do not fit in the current buffer\<close>

definition overflow_stream :: OutputStream where
  "overflow_stream =
     \<lparr>buffers = [replicate 128 1, replicate 128 0], out_buffer = 1, out_offset = 1,
      pieces = [(0, 128)], byteLength = 128\<rparr>"

lemma encode_bytes_123:
  "encode platform0 (PrimitiveSerializer P_bytes) (VBytes (replicate 123 1)) soia_stream
     = Inr overflow_stream"
  by code_simp

lemma toBytes_bytes_123:
  "bytesOf (toBytes platform0 (PrimitiveSerializer P_bytes) (VBytes (replicate 123 1)))
     = Inr (replicate 128 1 @ [0])"
  unfolding toBytes_eq encode_bytes_123
  by code_simp

lemma fromBytes_overflow:
  "fromBytes platform0 (PrimitiveSerializer P_bytes) (replicate 128 1 @ [0]) False
     = Inr (VBytes [1])"
  by code_simp

text \<open>
  C8. \<open>putBytes\<close> copies the part of a byte string that does not fit in the current
  buffer to the start of the buffer it has just left, through the reference \<open>buffer\<close>
  taken before \<open>reserve\<close> allocated a new one, and it takes that part from the wrong
  offset of the byte string. For the byte string of 123 bytes equal to 1, encoded by the
  bytes serializer, the first buffer holds the magic, the wire 245, the length 123 and
  122 bytes; the copy of the rest overwrites the magic: the result is 128 bytes equal to
  1 followed by a zero byte. It does not begin with \<open>soia\<close>, and \<open>fromBytes\<close> of it is
  the byte string of one byte, not the input.
\<close>

theorem toBytes_of_123_bytes_loses_magic:
  "bytesOf (toBytes platform0 (PrimitiveSerializer P_bytes) (VBytes (replicate 123 1)))
     = Inr (replicate 128 1 @ [0])
   \<and> take 4 (replicate 128 1 @ [0]) \<noteq> soia
   \<and> fromBytes platform0 (PrimitiveSerializer P_bytes) (replicate 128 1 @ [0]) False
       = Inr (VBytes [1])
   \<and> VBytes [1] \<noteq> VBytes (replicate 123 1)"
proof -
  have a: "take 4 (replicate 128 (1::byte) @ [0]) \<noteq> soia"
    by code_simp
  have "length [1::byte] \<noteq> length (replicate 123 (1::byte))" by simp
  then have "[1::byte] \<noteq> replicate 123 1" by (metis (no_types))
  then have b: "VBytes [1] \<noteq> VBytes (replicate 123 1)" by simp
  from a b show ?thesis by (simp only: toBytes_bytes_123 fromBytes_overflow simp_thms)
qed


section \<open>Unrecognized fields of a struct\<close>

lemma store_empty: "store pos [] buf = buf"
  by (simp add: store_def)

lemma putBytes_empty: "putBytes [] s = s"
  by (simp add: putBytes_def sliceOf_def poke_def store_empty Let_def)

lemma sliceOf_head_fits:
  "length bs \<le> room \<Longrightarrow> sliceOf bs 0 (Some (int room)) = bs"
  by (auto simp: sliceOf_def Let_def)

lemma putBytes_fits:
  assumes "wf_stream s" and "out_offset s + length bs \<le> length (buffers s ! out_buffer s)"
  shows "wf_stream (putBytes bs s)" and "contents (putBytes bs s) = contents s @ bs"
proof -
  let ?cur = "buffers s ! out_buffer s"
  from assms(2) have room: "length bs \<le> length ?cur - out_offset s" by simp
  have head: "sliceOf bs 0 (Some (int (length ?cur) - int (out_offset s))) = bs"
    using sliceOf_head_fits[OF room] assms(2) by (simp add: of_nat_diff)
  have eq: "putBytes bs s
        = (poke (out_buffer s) (out_offset s) bs s)\<lparr>out_offset := out_offset s + length bs\<rparr>"
    by (simp add: putBytes_def head Let_def)
  from assms(1) have cur: "out_buffer s < length (buffers s)" by (simp add: wf_stream_def)
  note st = store_fits[OF assms(2)]
  show "wf_stream (putBytes bs s)"
    using assms st by (auto simp: eq poke_def wf_stream_def list_all_iff)
  have tb: "toBuffer (poke (out_buffer s) (out_offset s) bs s) = toBuffer s"
    by (rule toBuffer_poke[OF wf_pieces_current[OF assms(1)]])
  then have tb': "toBuffer (putBytes bs s) = toBuffer s"
    by (simp add: eq toBuffer_def)
  have "take (out_offset s + length bs) (buffers (putBytes bs s) ! out_buffer s)
          = take (out_offset s) ?cur @ bs"
    using cur st by (simp add: eq poke_def)
  then show "contents (putBytes bs s) = contents s @ bs"
    using tb' by (simp add: contents_def eq poke_def)
qed

lemma getProp_payload: "getProp (VStruct ps u1) p = getProp (VStruct ps u2) p"
  by simp

lemma encodeSlots_payload:
  "encodeSlots P flds (VStruct ps u1) i n s = encodeSlots P flds (VStruct ps u2) i n s"
proof (induction "n - i" arbitrary: i s)
  case 0
  then show ?case by simp
next
  case (Suc k)
  then have lt: "i < n" and k: "k = n - Suc i" by auto
  show ?case
  proof (cases "slot flds i")
    case None
    with lt Suc.hyps(1)[OF k] show ?thesis by simp
  next
    case (Some field)
    with lt Suc.hyps(1)[OF k] show ?thesis
      by (simp split: sum.splits)
  qed
qed

lemma field_isDefault_payload:
  "field_isDefault f (VStruct ps u1) = field_isDefault f (VStruct ps u2)"
  by (cases f) simp

lemma getArrayLength_payload:
  "getArrayLength flds (VStruct ps u1) = getArrayLength flds (VStruct ps u2)"
proof -
  have "(\<lambda>f. \<not> field_isDefault f (VStruct ps u1)) = (\<lambda>f. \<not> field_isDefault f (VStruct ps u2))"
    using field_isDefault_payload by blast
  then show ?thesis by (simp add: getArrayLength_def)
qed

lemma encode_struct_foreign_token:
  assumes "fields_token u \<noteq> tok"
  shows "encode P (StructSerializerImpl tok rid flds removed) (VStruct ps (Some u)) s
         = encode P (StructSerializerImpl tok rid flds removed) (VStruct ps None) s"
  using assms
  by (simp add: getArrayLength_payload[of flds ps "Some u" None]
        encodeSlots_payload[of P flds ps "Some u" _ _ _ None] split: option.splits
        del: encodeSlots.simps cong: sum.case_cong)

lemma encode_struct_payload:
  assumes "fields_token u = tok" and "fields_bytes u = Some bytes"
  shows "encode P (StructSerializerImpl tok rid flds removed) (VStruct ps (Some u)) s
         = (case encode P (StructSerializerImpl tok rid flds removed)
                   (VStruct ps (Some (u\<lparr>fields_bytes := Some []\<rparr>))) s of
              Inl e \<Rightarrow> Inl e
            | Inr s2 \<Rightarrow> Inr (putBytes bytes s2))"
  using assms
  by (simp add: putBytes_empty
        encodeSlots_payload[of P flds ps "Some (u\<lparr>fields_bytes := Some []\<rparr>)" _ _ _ "Some u"]
        del: encodeSlots.simps cong: sum.case_cong split: sum.splits)

declare decodeUnused.simps [simp del] decodeUnused_times.simps [simp del]

lemma decodeUnused_mono:
  "decodeUnused P s = Inr s' \<Longrightarrow> in_buffer s' = in_buffer s \<and> in_offset s < in_offset s'"
  "decodeUnused_times P n s = Inr s'' \<Longrightarrow> in_buffer s'' = in_buffer s \<and> in_offset s \<le> in_offset s''"
proof (induction P s and P n s arbitrary: s' and s'' rule: decodeUnused_decodeUnused_times.induct)
  case (1 P s)
  note ps = decodeUnused.simps[of P s]
  from "1.prems" obtain wire s1 where r: "readUint8 s = Inr (wire, s1)"
    by (auto simp: ps split: sum.splits)
  from readUint8_Inr[OF r] have s1: "in_buffer s1 = in_buffer s" "in_offset s1 = in_offset s + 1"
    by auto
  show ?case
  proof (cases "wire < 232")
    case True
    with "1.prems" r s1 show ?thesis by (simp add: ps)
  next
    case False
    define c where "c = wire - 232"
    have c: "wire - 232 = c" by (simp add: c_def)
    consider (skip) "c \<in> {0,4,1,5,8,2,6,7,9,3}" | (len) "c = 11 \<or> c = 13"
      | (one) "c = 15 \<or> c = 19 \<or> c = 20 \<or> c = 21 \<or> c = 22" | (two) "c = 16" | (three) "c = 17"
      | (many) "c = 18" | (other) "c \<notin> {0,4,1,5,8,2,6,7,9,3,11,13,15,19,20,21,22,16,17,18}"
      by blast
    then show ?thesis
    proof cases
      case skip
      with "1.prems" r False s1 show ?thesis
        by (auto simp: ps skip_def c Let_def split: if_splits)
    next
      case len
      with "1.prems" r False obtain n s2 k where
        d: "decodeNumber P s1 = Inr (n, s2)" and s': "s' = skip k s2"
        by (auto simp: ps c Let_def split: if_splits sum.splits option.splits)
      from decodeNumber_mono[OF d] s1 s' show ?thesis by (simp add: skip_def)
    next
      case one
      with "1.prems" r False have d: "decodeUnused P s1 = Inr s'"
        by (auto simp: ps c Let_def split: if_splits)
      from one have "\<not> (c = 0 \<or> c = 4)" "\<not> (c = 1 \<or> c = 5 \<or> c = 8)" 
        "\<not> (c = 2 \<or> c = 6 \<or> c = 7 \<or> c = 9)" "c \<noteq> 3" "\<not> (c = 11 \<or> c = 13)" by auto
      from "1.IH"(1)[OF r refl False c[symmetric] this one d] s1
      show ?thesis by simp
    next
      case two
      with "1.prems" r False have d: "decodeUnused_times P 2 s1 = Inr s'"
        by (auto simp: ps c Let_def split: if_splits)
      from two have "\<not> (c = 0 \<or> c = 4)" "\<not> (c = 1 \<or> c = 5 \<or> c = 8)" 
        "\<not> (c = 2 \<or> c = 6 \<or> c = 7 \<or> c = 9)" "c \<noteq> 3" "\<not> (c = 11 \<or> c = 13)" 
        "\<not> (c = 15 \<or> c = 19 \<or> c = 20 \<or> c = 21 \<or> c = 22)" by auto
      from "1.IH"(2)[OF r refl False c[symmetric] this two d] s1
      show ?thesis by simp
    next
      case three
      with "1.prems" r False have d: "decodeUnused_times P 3 s1 = Inr s'"
        by (auto simp: ps c Let_def split: if_splits)
      from three have "\<not> (c = 0 \<or> c = 4)" "\<not> (c = 1 \<or> c = 5 \<or> c = 8)" 
        "\<not> (c = 2 \<or> c = 6 \<or> c = 7 \<or> c = 9)" "c \<noteq> 3" "\<not> (c = 11 \<or> c = 13)" 
        "\<not> (c = 15 \<or> c = 19 \<or> c = 20 \<or> c = 21 \<or> c = 22)" "c \<noteq> 16" by auto
      from "1.IH"(3)[OF r refl False c[symmetric] this three d] s1
      show ?thesis by simp
    next
      case many
      with "1.prems" r False obtain n s2 k where
        d: "decodeNumber P s1 = Inr (n, s2)" and lc: "loopCount n = Some k"
        and t: "decodeUnused_times P k s2 = Inr s'"
        by (auto simp: ps c Let_def split: if_splits sum.splits option.splits)
      from many have "\<not> (c = 0 \<or> c = 4)" "\<not> (c = 1 \<or> c = 5 \<or> c = 8)" 
        "\<not> (c = 2 \<or> c = 6 \<or> c = 7 \<or> c = 9)" "c \<noteq> 3" "\<not> (c = 11 \<or> c = 13)" 
        "\<not> (c = 15 \<or> c = 19 \<or> c = 20 \<or> c = 21 \<or> c = 22)" "c \<noteq> 16" "c \<noteq> 17" by auto
      from "1.IH"(4)[OF r refl False c[symmetric] this many d refl lc t] decodeNumber_mono[OF d] s1
      show ?thesis by simp
    next
      case other
      with "1.prems" r False s1 show ?thesis
        by (auto simp: ps skip_def c Let_def split: if_splits)
    qed
  qed
next
  case (2 P n s)
  note ps = decodeUnused_times.simps[of P n s]
  show ?case
  proof (cases "n = 0")
    case True
    from "2.prems" have "(if n = 0 then Inr s else case decodeUnused P s of
             Inl e \<Rightarrow> Inl e
           | Inr s' \<Rightarrow> decodeUnused_times P (n - 1) s') = Inr s''" by (simp only: ps)
    with True show ?thesis by simp
  next
    case False
    with "2.prems" obtain s1 where d: "decodeUnused P s = Inr s1"
      and t: "decodeUnused_times P (n - 1) s1 = Inr s''"
      by (auto simp: ps split: sum.splits)
    from "2.IH"(1)[OF False d] "2.IH"(2)[OF False d t] show ?thesis by simp
  qed
qed


lemma decodeNumber_le:
  "decodeNumber P s = Inr (n, s') \<Longrightarrow> in_buffer s' = in_buffer s \<and> in_offset s \<le> in_offset s'"
  by (drule decodeNumber_mono) simp

lemma decodeBigInt_le:
  "decodeBigInt P s = Inr (b, s') \<Longrightarrow> in_buffer s' = in_buffer s \<and> in_offset s \<le> in_offset s'"
  by (auto simp: decodeBigInt_def split: sum.splits numeric.splits dest: decodeNumber_le)

lemma readUint8_le:
  "readUint8 s = Inr (b, s') \<Longrightarrow> in_buffer s' = in_buffer s \<and> in_offset s \<le> in_offset s'"
  by (drule readUint8_Inr) simp

lemma StringSerializer_decode_le:
  assumes "StringSerializer_decode P s = Inr (v, s')"
  shows "in_buffer s' = in_buffer s \<and> in_offset s \<le> in_offset s'"
proof -
  from assms obtain wire s1 where r: "readUint8 s = Inr (wire, s1)"
    by (auto simp: StringSerializer_decode_def split: sum.splits)
  note s1 = readUint8_le[OF r]
  show ?thesis
  proof (cases "wire = 0 \<or> wire = 242")
    case True
    with assms r s1 show ?thesis by (auto simp: StringSerializer_decode_def)
  next
    case False
    with assms r obtain n s2 k where d: "decodeNumber P s1 = Inr (n, s2)" and s': "s' = skip k s2"
      by (auto simp: StringSerializer_decode_def split: sum.splits option.splits if_splits)
    from decodeNumber_le[OF d] s1 s' show ?thesis by (simp add: skip_def)
  qed
qed

lemma ByteStringSerializer_decode_le:
  assumes "ByteStringSerializer_decode P s = Inr (v, s')"
  shows "in_buffer s' = in_buffer s \<and> in_offset s \<le> in_offset s'"
proof -
  from assms obtain wire s1 where r: "readUint8 s = Inr (wire, s1)"
    by (auto simp: ByteStringSerializer_decode_def split: sum.splits)
  note s1 = readUint8_le[OF r]
  show ?thesis
  proof (cases "wire = 0 \<or> wire = 244")
    case True
    with assms r s1 show ?thesis by (auto simp: ByteStringSerializer_decode_def)
  next
    case False
    with assms r obtain n s2 k where d: "decodeNumber P s1 = Inr (n, s2)" and s': "s' = skip k s2"
      by (auto simp: ByteStringSerializer_decode_def split: sum.splits option.splits if_splits)
    from decodeNumber_le[OF d] s1 s' show ?thesis by (simp add: skip_def)
  qed
qed

lemma primitive_decode_le:
  assumes "primitive_decode P p s = Inr (v, s')"
  shows "in_buffer s' = in_buffer s \<and> in_offset s \<le> in_offset s'"
proof (cases p)
  case P_bool
  with assms show ?thesis
    by (auto simp: BoolSerializer_decode_def split: sum.splits dest: decodeNumber_le)
next
  case P_int32
  with assms show ?thesis
    by (auto simp: Int32Serializer_decode_def split: sum.splits dest: decodeNumber_le)
next
  case P_int64
  with assms show ?thesis
    by (auto simp: BigIntSerializer_decode_def split: sum.splits dest: decodeBigInt_le)
next
  case P_uint64
  with assms show ?thesis
    by (auto simp: BigIntSerializer_decode_def split: sum.splits dest: decodeBigInt_le)
next
  case P_float32
  with assms show ?thesis
    by (auto simp: FloatSerializer_decode_def split: sum.splits dest: decodeNumber_le)
next
  case P_float64
  with assms show ?thesis
    by (auto simp: FloatSerializer_decode_def split: sum.splits dest: decodeNumber_le)
next
  case P_timestamp
  with assms show ?thesis
    by (auto simp: TimestampSerializer_decode_def split: sum.splits dest: decodeNumber_le)
next
  case P_string
  with assms show ?thesis by (simp add: StringSerializer_decode_le)
next
  case P_bytes
  with assms show ?thesis by (simp add: ByteStringSerializer_decode_le)
qed

declare decodeSlots.simps [simp del] encodeSlots.simps [simp del]

lemma array_header_le:
  assumes "(if wire = 250
           then (case decodeNumber P s1 of
                   Inl e \<Rightarrow> Inl e
                 | Inr (n, s2) \<Rightarrow>
                     (case arrayLength n of Inl e \<Rightarrow> Inl e | Inr len \<Rightarrow> Inr (len, s2)))
           else if wire < 246 then Inl (Throws RangeError)
           else Inr (wire - 246, s1)) = Inr (len, s2)"
  shows "in_buffer s2 = in_buffer s1 \<and> in_offset s1 \<le> in_offset s2"
  using assms by (auto split: if_splits sum.splits dest: decodeNumber_le)

lemma struct_header_le:
  assumes "(if wire = 250
            then (case decodeNumber P s1 of
                    Inl e \<Rightarrow> Inl e
                  | Inr (n, s2) \<Rightarrow>
                      (case asLength n of
                         None \<Rightarrow> Inl OutsideModel
                       | Some k \<Rightarrow> Inr (int k, s2)))
            else Inr (int wire - 246, s1)) = Inr (encodedSlots, s2)"
  shows "in_buffer s2 = in_buffer s1 \<and> in_offset s1 \<le> in_offset s2"
  using assms by (auto split: if_splits sum.splits option.splits dest: decodeNumber_le)

lemma enum_header_le:
  assumes "(if wire = 248 then decodeNumber P (skip 1 s)
            else Inr (Num (Finite (of_int (int wire - 250))), skip 1 s)) = Inr (n, s1)"
  shows "in_buffer s1 = in_buffer s \<and> in_offset s \<le> in_offset s1"
  using assms by (auto simp: skip_def split: if_splits dest: decodeNumber_le)

lemma decode_le:
  "decode P ser s = Inr (v, s') \<Longrightarrow> in_buffer s' = in_buffer s \<and> in_offset s \<le> in_offset s'"
  "decodeItems P item n s = Inr (xs, s'') \<Longrightarrow> in_buffer s'' = in_buffer s \<and> in_offset s \<le> in_offset s''"
  "decodeSlots P flds init i n s = Inr (init', s''') \<Longrightarrow>
     in_buffer s''' = in_buffer s \<and> in_offset s \<le> in_offset s'''"
proof (induction P ser s and P item n s and P flds init i n s
    arbitrary: v s' and xs s'' and init' s''' rule: decode_decodeItems_decodeSlots.induct)
  case (1 P p s)
  then show ?case by (simp add: primitive_decode_le)
next
  case (2 P other s)
  then show ?case by (auto simp: skip_def split: sum.splits if_splits)
next
  case (3 P item k s)
  from "3.prems" obtain wire s1 where r: "readUint8 s = Inr (wire, s1)"
    by (auto split: sum.splits)
  note s1 = readUint8_le[OF r]
  show ?case
  proof (cases "wire = 0 \<or> wire = 246")
    case True
    with "3.prems" r s1 show ?thesis by auto
  next
    case False
    with "3.prems" r obtain len s2 xs' where
      h: "(if wire = 250
           then (case decodeNumber P s1 of
                   Inl e \<Rightarrow> Inl e
                 | Inr (n, s2) \<Rightarrow>
                     (case arrayLength n of Inl e \<Rightarrow> Inl e | Inr len \<Rightarrow> Inr (len, s2)))
           else if wire < 246 then Inl (Throws RangeError)
           else Inr (wire - 246, s1)) = Inr (len, s2)"
      and it: "decodeItems P item len s2 = Inr (xs', s')"
      by (simp split: sum.splits prod.splits) 
    from "3.IH"[OF r refl False h refl it] array_header_le[OF h] s1 show ?thesis by simp
  qed
next
  case (4 P tok rid flds removed s)
  from "4.prems" obtain wire s1 where r: "readUint8 s = Inr (wire, s1)"
    by (auto split: sum.splits)
  note s1 = readUint8_le[OF r]
  show ?case
  proof (cases "wire = 0 \<or> wire = 246")
    case True
    with "4.prems" r s1 show ?thesis by auto
  next
    case False
    with "4.prems" r obtain encodedSlots s2 initializer s3 where
      h: "(if wire = 250
            then (case decodeNumber P s1 of
                    Inl e \<Rightarrow> Inl e
                  | Inr (n, s2) \<Rightarrow>
                      (case asLength n of
                         None \<Rightarrow> Inl OutsideModel
                       | Some k \<Rightarrow> Inr (int k, s2)))
            else Inr (int wire - 246, s1)) = Inr (encodedSlots, s2)"
      and ds: "decodeSlots P flds (initializerTemplate flds) 0
                 (nat (min encodedSlots (int (recognizedSlots flds removed)))) s2
               = Inr (initializer, s3)"
      and rest: "(if encodedSlots > int (recognizedSlots flds removed)
                  then (case decodeUnused_times P
                               (nat (encodedSlots - int (recognizedSlots flds removed))) s3 of
                          Inl e \<Rightarrow> Inl e
                        | Inr s4 \<Rightarrow>
                            if keepUnrecognizedFields s4
                            then Inr (createFn flds initializer
                                   (Some \<lparr>fields_token = tok,
                                          totalSlots = nat encodedSlots,
                                          fields_json = None,
                                          fields_bytes =
                                            Some (sliceOf (in_buffer s4) (int (in_offset s3))
                                                    (Some (int (in_offset s4))))\<rparr>), s4)
                            else Inr (createFn flds initializer None, s4))
                  else Inr (createFn flds initializer None, s3)) = Inr (v, s')"
      by (simp split: sum.splits prod.splits)
    have "in_buffer s' = in_buffer s3 \<and> in_offset s3 \<le> in_offset s'"
      using rest by (auto split: if_splits sum.splits dest: decodeUnused_mono(2))
    with "4.IH"[OF r refl False h refl ds] struct_header_le[OF h] s1 show ?thesis by simp
  qed
next
  case (5 P create tok rid flds removed s)
  from "5.prems" obtain wire where g: "getUint8 s (in_offset s) = Inr wire"
    by (auto split: sum.splits)
  show ?case
  proof (cases "wire < 242")
    case True
    with "5.prems" g show ?thesis
      by (auto split: sum.splits option.splits dest: decodeNumber_le)
  next
    case False
    with "5.prems" g obtain n s1 key where
      h: "(if wire = 248 then decodeNumber P (skip 1 s)
           else Inr (Num (Finite (of_int (int wire - 250))), skip 1 s)) = Inr (n, s1)"
      and k: "enum_key n = Some key"
      by (simp split: sum.splits prod.splits option.splits)
    note s1 = enum_header_le[OF h]
    show ?thesis
    proof (cases "enum_fieldMapping flds key")
      case None
      with "5.prems" g False h k s1 show ?thesis
        by (auto split: sum.splits dest: decodeUnused_mono(1))
    next
      case (Some field)
      with "5.prems" g False h k obtain ser v' where
        vs: "variant_serializer field = Some ser" and d: "decode P ser s1 = Inr (v', s')"
        by (auto split: sum.splits option.splits)
      from "5.IH"[OF g False h refl k Some vs d] s1 show ?thesis by simp
    qed
  qed
next
  case (6 P item s)
  then show ?case by simp
next
  case (7 P item n s)
  from "7.prems" obtain x s1 xs' where d: "decode P item s = Inr (x, s1)"
    and r: "decodeItems P item n s1 = Inr (xs', s'')"
    by (auto split: sum.splits)
  from "7.IH"(1)[OF d] "7.IH"(2)[OF d refl r] show ?case by simp
next
  case (8 P flds initializer i n s)
  note ps = decodeSlots.simps[of P flds initializer i n s]
  show ?case
  proof (cases "i < n")
    case False
    with "8.prems" show ?thesis by (simp add: ps)
  next
    case True
    show ?thesis
    proof (cases "slot flds i")
      case None
      with "8.prems" True obtain s1 where d: "decodeUnused P s = Inr s1"
        and r: "decodeSlots P flds initializer (Suc i) n s1 = Inr (init', s''')"
        by (auto simp: ps split: sum.splits)
      from "8.IH"(1)[OF True None d r] decodeUnused_mono(1)[OF d] show ?thesis by simp
    next
      case (Some field)
      with "8.prems" True obtain v s1 where d: "decode P (field_serializer field) s = Inr (v, s1)"
        and r: "decodeSlots P flds (initializer(property field \<mapsto> v)) (Suc i) n s1 = Inr (init', s''')"
        by (auto simp: ps split: sum.splits)
      from "8.IH"(2)[OF True Some d] "8.IH"(3)[OF True Some d refl r] show ?thesis by simp
    qed
  qed
qed

lemma decodeUnused_times_strict:
  assumes "decodeUnused_times P n s = Inr s'" and "0 < n"
  shows "in_offset s < in_offset s'"
proof -
  from assms obtain s1 where d: "decodeUnused P s = Inr s1"
    and t: "decodeUnused_times P (n - 1) s1 = Inr s'"
    by (auto simp: decodeUnused_times.simps[of P n s] split: sum.splits)
  from decodeUnused_mono(1)[OF d] decodeUnused_mono(2)[OF t] show ?thesis by simp
qed

lemma createFn_unrecognized:
  "createFn flds initializer r = VStruct ps (Some u) \<Longrightarrow> r = Some u"
  by (simp add: createFn_def)

lemma sliceOf_suffix:
  assumes "start < length input"
  shows "sliceOf input (int start) (Some (int (length input))) = drop start input"
  using assms by (simp add: sliceOf_def Let_def)

subsection \<open>The number of bytes written\<close>

text \<open>
  The number of bytes that a stream has taken: those of the pieces, which \<open>byteLength\<close>
  counts, and those of the current buffer. \<open>inv_stream\<close> adds to \<open>wf_stream\<close> that
  \<open>byteLength\<close> is the sum of the lengths of the pieces and that every piece lies in its
  buffer. \<open>in_first\<close> holds while the stream still writes to the buffer of 128 bytes it
  was created with. \<open>grows s s'\<close> relates a stream to a later state of it: the count has
  not gone down, and if \<open>s\<close> was in its first buffer then \<open>s'\<close> still is, or it holds
  128 bytes or more.
\<close>

definition bytesWritten :: "OutputStream \<Rightarrow> nat" where
  "bytesWritten s = byteLength s + out_offset s"

definition inv_stream :: "OutputStream \<Rightarrow> bool" where
  "inv_stream s =
     (wf_stream s \<and> byteLength s = sum_list (map snd (pieces s)) \<and>
      list_all (\<lambda>(b, n). n \<le> length (buffers s ! b)) (pieces s))"

definition in_first :: "OutputStream \<Rightarrow> bool" where
  "in_first s =
     (length (buffers s) = 1 \<and> length (buffers s ! 0) = 128 \<and> out_buffer s = 0 \<and>
      pieces s = [] \<and> byteLength s = 0)"

definition grows :: "OutputStream \<Rightarrow> OutputStream \<Rightarrow> bool" where
  "grows s s' =
     (inv_stream s' \<and> bytesWritten s \<le> bytesWritten s' \<and>
      (in_first s \<longrightarrow> in_first s' \<or> 128 \<le> bytesWritten s'))"

lemma grows_refl: "inv_stream s \<Longrightarrow> grows s s"
  by (simp add: grows_def)

lemma grows_trans: "grows s s1 \<Longrightarrow> grows s1 s2 \<Longrightarrow> grows s s2"
  by (auto simp: grows_def)

lemma grows_inv: "grows s s' \<Longrightarrow> inv_stream s'"
  by (simp add: grows_def)

lemma length_concat_pieces:
  "list_all (\<lambda>(b, n). n \<le> length (bufs ! b)) ps \<Longrightarrow>
     length (concat (map (\<lambda>(b, n). take n (bufs ! b)) ps)) = sum_list (map snd ps)"
  by (induction ps) auto

lemma length_toBuffer:
  assumes "list_all (\<lambda>(b, n). n \<le> length (buffers s ! b)) (pieces s)"
  shows "length (toBuffer s) = sum_list (map snd (pieces s))"
  using length_concat_pieces[OF assms] by (simp add: toBuffer_def)

lemma length_contents:
  assumes "inv_stream s"
  shows "length (contents s) = bytesWritten s"
  using assms length_toBuffer[of s]
  by (simp add: inv_stream_def contents_def bytesWritten_def wf_stream_def)

lemma length_store [simp]: "length (store pos bs buf) = length buf"
  by (simp add: store_def)

lemma poke_inv:
  assumes "inv_stream s"
  shows "grows s (poke b pos bs s)"
proof -
  have len: "length ((buffers s)[b := store pos bs (buffers s ! b)] ! c) = length (buffers s ! c)" for c
    by (cases "b < length (buffers s)") (simp_all add: nth_list_update list_update_beyond)
  from assms show ?thesis
    by (auto simp: grows_def inv_stream_def wf_stream_def poke_def bytesWritten_def in_first_def len
        list_all_iff)
qed


lemma reserve_inv:
  assumes "inv_stream s"
  shows "inv_stream (reserve n s)" and "bytesWritten (reserve n s) = bytesWritten s"
proof -
  from assms have wf: "wf_stream s" by (simp add: inv_stream_def)
  show "bytesWritten (reserve n s) = bytesWritten s"
    by (simp add: reserve_def flush_def bytesWritten_def Let_def)
  from assms reserve_props(1)[OF wf, of n] show "inv_stream (reserve n s)"
    by (auto simp: inv_stream_def reserve_def flush_def Let_def list_all_iff nth_append
        wf_stream_def)
qed

lemma reserve_first:
  assumes "in_first s"
  shows "in_first (reserve n s) \<or> 128 \<le> out_offset s + n"
  using assms by (auto simp: reserve_def in_first_def)

lemma set_offset_grows:
  assumes "inv_stream s" and "out_offset s \<le> k" and "k \<le> length (buffers s ! out_buffer s)"
  shows "grows s (s\<lparr>out_offset := k\<rparr>)"
  using assms
  by (auto simp: grows_def inv_stream_def wf_stream_def bytesWritten_def in_first_def)

lemma poke_fields [simp]:
  "out_offset (poke b pos bs s) = out_offset s"
  "out_buffer (poke b pos bs s) = out_buffer s"
  "pieces (poke b pos bs s) = pieces s"
  "byteLength (poke b pos bs s) = byteLength s"
  "length (buffers (poke b pos bs s)) = length (buffers s)"
  by (simp_all add: poke_def)

lemma poke_buffer_length [simp]:
  "length (buffers (poke b pos bs s) ! c) = length (buffers s ! c)"
  by (cases "b < length (buffers s)") (simp_all add: poke_def nth_list_update list_update_beyond)

lemma writeBytes_grows:
  assumes "inv_stream s" and "length bs = n"
  shows "grows s (writeBytes n bs s)"
proof -
  let ?s1 = "reserve n s"
  let ?s2 = "poke (out_buffer ?s1) (out_offset ?s1) bs ?s1"
  from assms(1) have wf: "wf_stream s" by (simp add: inv_stream_def)
  note r = reserve_inv[OF assms(1), of n] reserve_props(3)[OF wf, of n]
  have g1: "grows ?s1 ?s2" by (rule poke_inv[OF r(1)])
  have g2: "grows ?s2 (?s2\<lparr>out_offset := out_offset ?s1 + n\<rparr>)"
    by (rule set_offset_grows[OF grows_inv[OF g1]]) (use r(3) in simp_all)
  have eq: "writeBytes n bs s = ?s2\<lparr>out_offset := out_offset ?s1 + n\<rparr>"
    by (simp add: writeBytes_def Let_def)
  from grows_trans[OF g1 g2] have g: "grows ?s1 (writeBytes n bs s)" by (simp only: eq)
  have w: "bytesWritten (writeBytes n bs s) = bytesWritten s + n"
    using r(2) by (simp add: eq bytesWritten_def)
  show ?thesis
  proof (cases "in_first ?s1")
    case True
    with g r(2) show ?thesis by (auto simp: grows_def)
  next
    case False
    with reserve_first[of s n] have "in_first s \<longrightarrow> 128 \<le> out_offset s + n" by blast
    moreover have "in_first s \<longrightarrow> bytesWritten s = out_offset s" by (simp add: in_first_def bytesWritten_def)
    ultimately show ?thesis using g w by (auto simp: grows_def)
  qed
qed


lemma sliceOf_head:
  "sliceOf bs 0 (Some (int room)) = take room bs"
  by (auto simp: sliceOf_def Let_def)

lemma putBytes_grows:
  assumes "inv_stream s"
  shows "grows s (putBytes bs s)"
proof -
  let ?cur = "buffers s ! out_buffer s"
  from assms have wf: "wf_stream s" by (simp add: inv_stream_def)
  then have le: "out_offset s \<le> length ?cur" by (simp add: wf_stream_def)
  define room where "room = length ?cur - out_offset s"
  have head: "sliceOf bs 0 (Some (int (length ?cur) - int (out_offset s))) = take room bs"
    using le sliceOf_head[of bs room] by (simp add: room_def of_nat_diff)
  define s0 where "s0 = poke (out_buffer s) (out_offset s) (take room bs) s"
  define s1 where "s1 = s0\<lparr>out_offset := out_offset s + length (take room bs)\<rparr>"
  have g0: "grows s s0" unfolding s0_def by (rule poke_inv[OF assms])
  have g01: "grows s0 s1" unfolding s1_def
    by (rule set_offset_grows[OF grows_inv[OF g0]]) (use le in \<open>simp_all add: s0_def room_def\<close>)
  note g1 = grows_trans[OF g0 g01]
  show ?thesis
  proof (cases "length bs \<le> room")
    case True
    then have "putBytes bs s = s1"
      by (simp add: putBytes_def head Let_def s1_def s0_def)
    with g1 show ?thesis by simp
  next
    case False
    define remaining where "remaining = length bs - room"
    from False have rem: "0 < remaining" and lt: "length (take room bs) = room"
      by (simp_all add: remaining_def)
    define s2 where "s2 = reserve remaining s1"
    define s3 where "s3 = poke (out_buffer s) (out_offset s2) (sliceOf bs (int remaining) None) s2"
    have eq: "putBytes bs s = s3\<lparr>out_offset := out_offset s3 + remaining\<rparr>"
      using False
      by (simp add: putBytes_def head Let_def s1_def s0_def s2_def s3_def remaining_def)
    note i1 = grows_inv[OF g1]
    then have wf1: "wf_stream s1" by (simp add: inv_stream_def)
    note r = reserve_inv[OF i1, of remaining] reserve_props(3)[OF wf1, of remaining]
    have g3: "grows s2 s3" unfolding s3_def by (rule poke_inv) (simp add: s2_def r(1))
    have g4: "grows s3 (s3\<lparr>out_offset := out_offset s3 + remaining\<rparr>)"
      by (rule set_offset_grows[OF grows_inv[OF g3]]) (use r(3) in \<open>simp_all add: s3_def s2_def\<close>)
    note g34 = grows_trans[OF g3 g4]
    have w1: "bytesWritten s \<le> bytesWritten s1" using g1 by (simp add: grows_def)
    have w2: "bytesWritten s2 = bytesWritten s1" by (simp add: s2_def r(2))
    have w4: "bytesWritten s2 \<le> bytesWritten (putBytes bs s)" using g34 by (simp add: grows_def eq)
    have "in_first s \<longrightarrow> 128 \<le> bytesWritten s1"
      using lt le by (auto simp: in_first_def bytesWritten_def s1_def s0_def room_def)
    with w1 w2 w4 g34 show ?thesis by (auto simp: grows_def eq)
  qed
qed

lemma grows_writeBytes:
  "grows s0 s \<Longrightarrow> length bs = n \<Longrightarrow> grows s0 (writeBytes n bs s)"
  by (rule grows_trans[OF _ writeBytes_grows[OF grows_inv]])

lemma grows_writers:
  "grows s0 s \<Longrightarrow> grows s0 (writeUint8 v s)"
  "grows s0 s \<Longrightarrow> grows s0 (writeUint16 v s)"
  "grows s0 s \<Longrightarrow> grows s0 (writeUint32 v s)"
  "grows s0 s \<Longrightarrow> grows s0 (writeInt32 v s)"
  "grows s0 s \<Longrightarrow> grows s0 (writeUint64 v s)"
  "grows s0 s \<Longrightarrow> grows s0 (writeInt64 v s)"
  "grows s0 s \<Longrightarrow> grows s0 (writeFloat32 P x s)"
  "grows s0 s \<Longrightarrow> grows s0 (writeFloat64 P x s)"
  by (simp_all add: writeUint8_def writeUint16_def writeUint32_def writeInt32_def
      writeUint64_def writeInt64_def writeFloat32_def writeFloat64_def grows_writeBytes)

lemma grows_putBytes: "grows s0 s \<Longrightarrow> grows s0 (putBytes bs s)"
  by (rule grows_trans[OF _ putBytes_grows[OF grows_inv]])

lemma grows_poke: "grows s0 s \<Longrightarrow> grows s0 (poke b pos bs s)"
  by (rule grows_trans[OF _ poke_inv[OF grows_inv]])

lemma grows_encodeUint32:
  assumes "grows s0 s" and "encodeUint32 n s = Inr s'"
  shows "grows s0 s'"
  using assms by (auto simp: encodeUint32_def split: if_splits intro!: grows_writers)

lemma grows_writeSlotCount:
  assumes "grows s0 s" and "writeSlotCount n s = Inr s'"
  shows "grows s0 s'"
  using assms
  by (auto simp: writeSlotCount_def split: if_splits intro!: grows_writers
      elim: grows_encodeUint32[rotated])


text \<open>The number of bytes that the first code point of a string takes in UTF-8.\<close>

definition firstLength :: "jsstring \<Rightarrow> nat" where
  "firstLength string = (if string = [] then 0 else length (utf8 (snd (codePoint string))))"

lemma encodeInto_room:
  "encodeInto string room = (read, wr) \<Longrightarrow>
     length wr \<le> room \<and> (drop read string \<noteq> [] \<longrightarrow> room - length wr < firstLength (drop read string))"
proof (induction string room arbitrary: read wr rule: encodeInto.induct)
  case (1 string room)
  note ps = encodeInto.simps[of string room]
  show ?case
  proof (cases "string = []")
    case True
    with "1.prems" show ?thesis by (simp add: encodeInto.simps[of "[]"])
  next
    case False
    obtain k cp where kc: "codePoint string = (k, cp)" by (cases "codePoint string")
    show ?thesis
    proof (cases "length (utf8 cp) \<le> room")
      case fits: True
      obtain read' wr' where r: "encodeInto (drop k string) (room - length (utf8 cp)) = (read', wr')"
        by (cases "encodeInto (drop k string) (room - length (utf8 cp))")
      from "1.prems" False kc fits r have eq: "read = k + read'" "wr = utf8 cp @ wr'"
        by (simp_all add: ps)
      from "1.IH"[OF False kc[symmetric] refl refl fits r] fits eq show ?thesis
        by (auto simp: add.commute)
    next
      case nofit: False
      with "1.prems" False kc have "read = 0" "wr = []" by (simp_all add: ps)
      with nofit False kc show ?thesis by (simp add: firstLength_def)
    qed
  qed
qed

lemma encodeInto_first:
  assumes "encodeInto string room = (read, wr)" and "string \<noteq> []"
  shows "(read = 0 \<and> wr = []) \<or> firstLength string \<le> length wr"
proof -
  obtain k cp where kc: "codePoint string = (k, cp)" by (cases "codePoint string")
  show ?thesis
  proof (cases "length (utf8 cp) \<le> room")
    case True
    obtain read' wr' where r: "encodeInto (drop k string) (room - length (utf8 cp)) = (read', wr')"
      by (cases "encodeInto (drop k string) (room - length (utf8 cp))")
    from assms kc True r have "wr = utf8 cp @ wr'" by (simp add: encodeInto.simps[of string room])
    with assms(2) kc show ?thesis by (simp add: firstLength_def)
  next
    case False
    with assms kc show ?thesis by (simp add: encodeInto.simps[of string room])
  qed
qed


lemma putUtf8String_loop_grows:
  assumes "putUtf8String_loop string r s = Some y"
  shows "inv_stream s \<longrightarrow>
           grows s (snd y) \<and> bytesWritten s + firstLength string \<le> bytesWritten (snd y)"
proof -
  define Q where "Q = (\<lambda>(string :: jsstring) (r :: nat) s (y :: nat \<times> OutputStream).
     inv_stream s \<longrightarrow>
       grows s (snd y) \<and> bytesWritten s + firstLength string \<le> bytesWritten (snd y))"
  have "Q string r s y"
  proof (rule putUtf8String_loop.raw_induct[where P = Q, OF _ assms])
    fix loop :: "jsstring \<Rightarrow> nat \<Rightarrow> OutputStream \<Rightarrow> (nat \<times> OutputStream) option"
      and string r s y
    assume IH: "\<And>string r s y. loop string r s = Some y \<Longrightarrow> Q string r s y"
      and body: "(if string = [] then Some (r, s)
        else let (read, wr) = encodeInto string (length (buffers s ! out_buffer s) - out_offset s);
                 s1 = (poke (out_buffer s) (out_offset s) wr s)
                        \<lparr>out_offset := out_offset s + length wr\<rparr>;
                 string' = drop read string
             in if string' = [] then Some (r + length wr, s1)
                else loop string' (r + length wr) (reserve (length string' * 2) s1)) = Some y"
    show "Q string r s y"
      unfolding Q_def
    proof
      assume inv: "inv_stream s"
      show "grows s (snd y) \<and> bytesWritten s + firstLength string \<le> bytesWritten (snd y)"
      proof (cases "string = []")
        case True
        with body have "y = (r, s)" by simp
        with inv True show ?thesis by (simp add: grows_refl firstLength_def)
      next
        case False
        let ?cur = "buffers s ! out_buffer s"
        let ?room = "length ?cur - out_offset s"
        obtain read wr where e: "encodeInto string ?room = (read, wr)"
          by (cases "encodeInto string ?room")
        note room = encodeInto_room[OF e] and first = encodeInto_first[OF e False]
        from inv have le: "out_offset s \<le> length ?cur" by (simp add: inv_stream_def wf_stream_def)
        define s0 where "s0 = poke (out_buffer s) (out_offset s) wr s"
        define s1 where "s1 = s0\<lparr>out_offset := out_offset s + length wr\<rparr>"
        have g0: "grows s s0" unfolding s0_def by (rule poke_inv[OF inv])
        have g01: "grows s0 s1" unfolding s1_def
          by (rule set_offset_grows[OF grows_inv[OF g0]]) (use le room in \<open>auto simp: s0_def\<close>)
        note g1 = grows_trans[OF g0 g01]
        have w1: "bytesWritten s1 = bytesWritten s + length wr"
          by (simp add: s1_def s0_def bytesWritten_def)
        show ?thesis
        proof (cases "drop read string = []")
          case True
          with body False e have y: "y = (r + length wr, s1)" by (simp add: s1_def s0_def)
          from True False first have "firstLength string \<le> length wr" by auto
          with g1 w1 y show ?thesis by simp
        next
          case more: False
          let ?s2 = "reserve (length (drop read string) * 2) s1"
          from body False e more have rec: "loop (drop read string) (r + length wr) ?s2 = Some y"
            by (simp add: s1_def s0_def)
          note i1 = grows_inv[OF g1]
          note r2 = reserve_inv[OF i1, of "length (drop read string) * 2"]
          from IH[OF rec] r2(1) have g2: "grows ?s2 (snd y)"
            and w2: "bytesWritten ?s2 + firstLength (drop read string) \<le> bytesWritten (snd y)"
            by (simp_all add: Q_def)
          from first have fl: "firstLength string \<le> length wr + firstLength (drop read string)"
            by auto
          with w1 w2 r2(2) have w: "bytesWritten s + firstLength string \<le> bytesWritten (snd y)"
            by simp
          have "in_first (snd y) \<or> 128 \<le> bytesWritten (snd y)" if f: "in_first s"
          proof (cases "in_first ?s2")
            case True
            with g2 show ?thesis by (simp add: grows_def)
          next
            case False
            from f have "length ?cur = 128" "bytesWritten s = out_offset s"
              by (simp_all add: in_first_def bytesWritten_def)
            with room more le
            have "128 < bytesWritten s + length wr + firstLength (drop read string)"
              by auto
            with w1 w2 r2(2) show ?thesis by simp
          qed
          with g2 w show ?thesis by (auto simp: grows_def)
        qed
      qed
    qed
  qed
  then show ?thesis by (simp add: Q_def)
qed

lemma grows_putUtf8String:
  assumes "grows s0 s" and "putUtf8String string s = Some (n, s')"
  shows "grows s0 s'"
  using putUtf8String_loop_grows[of string 0 s "(n, s')"] assms grows_trans[of s0 s s']
  by (simp add: putUtf8String_def grows_inv)


lemma grows_Int32Serializer_encode:
  "grows s0 s \<Longrightarrow> grows s0 (Int32Serializer_encode n s)"
  by (simp add: Int32Serializer_encode_def grows_writers)

lemma grows_Int64Serializer_encode:
  "grows s0 s \<Longrightarrow> grows s0 (Int64Serializer_encode n s)"
  by (simp add: Int64Serializer_encode_def grows_writers grows_Int32Serializer_encode)

lemma grows_Uint64Serializer_encode:
  "grows s0 s \<Longrightarrow> grows s0 (Uint64Serializer_encode n s)"
  by (simp add: Uint64Serializer_encode_def grows_writers)

lemma grows_StringSerializer_encode:
  assumes "grows s0 s" and "StringSerializer_encode input s = Inr s'"
  shows "grows s0 s'"
proof (cases "input = []")
  case True
  with assms show ?thesis by (auto simp: StringSerializer_encode_def intro: grows_writers)
next
  case False
  define s2 where "s2 = (if length input * 3 < 232 then writeUint8 0 (writeUint8 243 s)
                     else if length input * 3 < 65536
                     then writeUint16 0 (writeUint8 232 (writeUint8 243 s))
                     else writeUint32 0 (writeUint8 233 (writeUint8 243 s)))"
  have g2: "grows s0 s2" using assms(1) by (simp add: s2_def grows_writers)
  from assms(2) False obtain n s3 where p: "putUtf8String input s2 = Some (n, s3)"
    and s': "s' = (if length input * 3 < 232
                   then poke (out_buffer s2) (out_offset s2 - 1) [word_of_int (int n)] s3
                   else if length input * 3 < 65536
                   then poke (out_buffer s2) (out_offset s2 - 2) (le16 (int n)) s3
                   else poke (out_buffer s2) (out_offset s2 - 4) (le32 (int n)) s3)"
    by (auto simp: StringSerializer_encode_def Let_def s2_def split: option.splits)
  from grows_putUtf8String[OF g2 p] show ?thesis by (simp add: s' grows_poke)
qed

lemma grows_primitive_encode:
  assumes "grows s0 s" and "primitive_encode P p v s = Inr s'"
  shows "grows s0 s'"
proof (cases p)
  case P_bool
  with assms show ?thesis
    by (auto simp: BoolSerializer_encode_def grows_writers split: val.splits)
next
  case P_int32
  with assms show ?thesis
    by (auto simp: grows_Int32Serializer_encode split: val.splits number.splits if_splits)
next
  case P_int64
  with assms show ?thesis
    by (auto simp: grows_Int64Serializer_encode split: val.splits)
next
  case P_uint64
  with assms show ?thesis
    by (auto simp: grows_Uint64Serializer_encode split: val.splits)
next
  case P_float32
  with assms show ?thesis
    by (auto simp: Float32Serializer_encode_def grows_writers split: val.splits if_splits)
next
  case P_float64
  with assms show ?thesis
    by (auto simp: Float64Serializer_encode_def grows_writers split: val.splits if_splits)
next
  case P_timestamp
  with assms show ?thesis
    by (auto simp: TimestampSerializer_encode_def grows_writers
        split: val.splits if_splits sum.splits)
next
  case P_string
  with assms show ?thesis
    by (auto split: val.splits intro: grows_StringSerializer_encode)
next
  case P_bytes
  with assms show ?thesis
    by (auto simp: ByteStringSerializer_encode_def grows_writers grows_putBytes
        split: val.splits if_splits sum.splits
        intro!: grows_putBytes elim: grows_encodeUint32[rotated])
qed

lemma grows_encode:
  "encode P ser v s = Inr s' \<Longrightarrow> grows s0 s \<Longrightarrow> grows s0 s'"
  "encodeItems P item xs s = Inr s' \<Longrightarrow> grows s0 s \<Longrightarrow> grows s0 s'"
  "encodeSlots P flds v i n s = Inr s' \<Longrightarrow> grows s0 s \<Longrightarrow> grows s0 s'"
proof (induction P ser v s and P item xs s and P flds v i n s
    arbitrary: s' and s' and s' rule: encode_encodeItems_encodeSlots.induct)
  case (1 P p input s)
  then show ?case by (simp add: grows_primitive_encode)
next
  case (2 P other input s)
  then show ?case by (auto simp: grows_writers split: if_splits)
next
  case (3 P item k input s)
  from "3.prems"(1) obtain xs s1 where v: "input = VArray xs"
    and h: "writeSlotCount (length xs) s = Inr s1"
    and it: "encodeItems P item xs s1 = Inr s'"
    by (auto split: val.splits sum.splits)
  from "3.IH"[OF v h it grows_writeSlotCount[OF "3.prems"(2) h]] show ?case .
next
  case (4 P tok rid flds removed input s)
  from "4.prems"(1) obtain ps u where v: "input = VStruct ps u"
    by (auto split: val.splits)
  define triple where "triple = (case u of
                    Some u \<Rightarrow>
                      (case fields_bytes u of
                         Some bytes \<Rightarrow>
                           if fields_token u = tok
                           then (totalSlots u, recognizedSlots flds removed, Some bytes)
                           else (getArrayLength flds input, getArrayLength flds input, None)
                       | None \<Rightarrow> (getArrayLength flds input, getArrayLength flds input, None))
                  | None \<Rightarrow> (getArrayLength flds input, getArrayLength flds input, None))"
  obtain total recognized ub where tr: "triple = (total, recognized, ub)"
    by (cases triple)
  have eq: "encode P (StructSerializerImpl tok rid flds removed) input s =
      (case triple of (total, recognized, ub) \<Rightarrow>
         case writeSlotCount total s of
           Inl e \<Rightarrow> Inl e
         | Inr s1 \<Rightarrow>
             (case encodeSlots P flds input 0 recognized s1 of
                Inl e \<Rightarrow> Inl e
              | Inr s2 \<Rightarrow>
                  Inr (case ub of Some bytes \<Rightarrow> putBytes bytes s2 | None \<Rightarrow> s2)))"
    unfolding triple_def v by simp
  from "4.prems"(1) obtain s1 s2 where h: "writeSlotCount total s = Inr s1"
    and sl: "encodeSlots P flds input 0 recognized s1 = Inr s2"
    and s': "s' = (case ub of Some bytes \<Rightarrow> putBytes bytes s2 | None \<Rightarrow> s2)"
    unfolding eq tr by (auto split: sum.splits)
  have "grows s0 s2"
    by (rule "4.IH"[OF v refl tr[unfolded triple_def, symmetric] refl h sl
          grows_writeSlotCount[OF "4.prems"(2) h]])
  then show ?case by (simp add: s' grows_putBytes split: option.splits)
next
  case (5 P create tok rid flds removed input s)
  from "5.prems"(1) obtain kind val u where v: "input = VEnum kind val u"
    by (auto split: val.splits)
  define ub where "ub = (case u of
                   Some u \<Rightarrow> (case enum_bytes u of
                                Some bytes \<Rightarrow> if enum_token u = tok then Some bytes else None
                              | None \<Rightarrow> None)
                 | None \<Rightarrow> None)"
  show ?case
  proof (cases ub)
    case (Some bytes)
    with "5.prems"(1) v have "s' = putBytes bytes s" by (simp add: ub_def)
    with "5.prems"(2) show ?thesis by (simp add: grows_putBytes)
  next
    case None
    show ?thesis
    proof (cases "kind = Some (js ''?'')")
      case True
      with "5.prems"(1) v None have "s' = writeUint8 0 s" by (simp add: ub_def)
      with "5.prems"(2) show ?thesis by (simp add: grows_writers)
    next
      case nk: False
      with "5.prems"(1) v None obtain field where
        look: "enum_fieldMapping flds (kind_key kind) = Some field"
        by (auto simp: ub_def split: option.splits if_splits)
      show ?thesis
      proof (cases "variant_serializer field")
        case vn: None
        with "5.prems"(1) v None nk look have "encodeUint32 (variant_number field) s = Inr s'"
          by (simp add: ub_def)
        from grows_encodeUint32[OF "5.prems"(2) this] show ?thesis .
      next
        case (Some ser)
        with "5.prems"(1) v None nk look obtain s1 where
          h: "(if variant_number field < 5
               then Inr (writeUint8 (250 + int (variant_number field)) s)
               else encodeUint32 (variant_number field) (writeUint8 248 s)) = Inr s1"
          and e: "encode P ser (case val of Some x \<Rightarrow> x | None \<Rightarrow> VUndefined) s1 = Inr s'"
          by (auto simp: ub_def split: sum.splits)
        have g1: "grows s0 s1"
          using h "5.prems"(2)
          by (auto simp: grows_writers split: if_splits
              elim: grows_encodeUint32[rotated])
        from "5.IH"[OF v None[unfolded ub_def] nk look Some h e g1] show ?thesis .
      qed
    qed
  qed
next
  case (6 P item s)
  then show ?case by simp
next
  case (7 P item x xs s)
  from "7.prems"(1) obtain s1 where e: "encode P item x s = Inr s1"
    and r: "encodeItems P item xs s1 = Inr s'"
    by (auto split: sum.splits)
  from "7.IH"(2)[OF e r "7.IH"(1)[OF e "7.prems"(2)]] show ?case .
next
  case (8 P flds input i n s)
  note ps = encodeSlots.simps[of P flds input i n s]
  show ?case
  proof (cases "i < n")
    case False
    with "8.prems" show ?thesis by (simp add: ps)
  next
    case True
    show ?thesis
    proof (cases "slot flds i")
      case None
      with "8.prems"(1) True have r: "encodeSlots P flds input (Suc i) n (writeUint8 0 s) = Inr s'"
        by (simp add: ps)
      from "8.IH"(1)[OF True None r grows_writers(1)[OF "8.prems"(2)]] show ?thesis .
    next
      case (Some field)
      with "8.prems"(1) True obtain s1 where
        e: "encode P (field_serializer field) (getProp input (property field)) s = Inr s1"
        and r: "encodeSlots P flds input (Suc i) n s1 = Inr s'"
        by (auto simp: ps split: sum.splits)
      from "8.IH"(3)[OF True Some e r "8.IH"(2)[OF True Some e "8.prems"(2)]] show ?thesis .
    qed
  qed
qed

subsection \<open>Decoding and re-encoding unknown slots\<close>

text \<open>
  The slot count of a struct, read after the first wire byte:
  \<open>wire === 250 ? decodeNumber(stream) : wire - 246\<close>.
\<close>

definition decodeSlotCount :: "platform \<Rightarrow> nat \<Rightarrow> InputStream \<Rightarrow> failure + int \<times> InputStream" where
  "decodeSlotCount P wire s =
     (if wire = 250
      then (case decodeNumber P s of
              Inl e \<Rightarrow> Inl e
            | Inr (n, s') \<Rightarrow>
                (case asLength n of None \<Rightarrow> Inl OutsideModel | Some k \<Rightarrow> Inr (int k, s')))
      else Inr (int wire - 246, s))"

lemma decode_struct_trace:
  assumes "decode P (StructSerializerImpl tok rid flds removed) s = Inr (VStruct ps (Some u), s')"
  shows "\<exists>wire s1 N s2 initializer s3.
           readUint8 s = Inr (wire, s1) \<and> wire \<noteq> 0 \<and> wire \<noteq> 246
         \<and> decodeSlotCount P wire s1 = Inr (int N, s2)
         \<and> recognizedSlots flds removed < N
         \<and> decodeSlots P flds (initializerTemplate flds) 0 (recognizedSlots flds removed) s2
             = Inr (initializer, s3)
         \<and> decodeUnused_times P (N - recognizedSlots flds removed) s3 = Inr s'
         \<and> in_buffer s' = in_buffer s \<and> in_offset s < in_offset s3 \<and> in_offset s3 < in_offset s'
         \<and> VStruct ps (Some u) = createFn flds initializer (Some u)
         \<and> u = \<lparr>fields_token = tok, totalSlots = N, fields_json = None,
                 fields_bytes = Some (sliceOf (in_buffer s) (int (in_offset s3))
                                        (Some (int (in_offset s'))))\<rparr>"
proof -
  let ?R = "recognizedSlots flds removed"
  from assms obtain wire s1 where r: "readUint8 s = Inr (wire, s1)"
    by (auto split: sum.splits)
  note s1 = readUint8_Inr[OF r]
  have nd: "\<not> (wire = 0 \<or> wire = 246)"
  proof
    assume "wire = 0 \<or> wire = 246"
    with assms r show False by simp
  qed
  with assms r obtain encodedSlots s2 initializer s3 where
    h: "decodeSlotCount P wire s1 = Inr (encodedSlots, s2)"
    and ds: "decodeSlots P flds (initializerTemplate flds) 0
               (nat (min encodedSlots (int ?R))) s2 = Inr (initializer, s3)"
    and rest: "(if encodedSlots > int ?R
                then (case decodeUnused_times P (nat (encodedSlots - int ?R)) s3 of
                        Inl e \<Rightarrow> Inl e
                      | Inr s4 \<Rightarrow>
                          if keepUnrecognizedFields s4
                          then Inr (createFn flds initializer
                                 (Some \<lparr>fields_token = tok,
                                        totalSlots = nat encodedSlots,
                                        fields_json = None,
                                        fields_bytes =
                                          Some (sliceOf (in_buffer s4) (int (in_offset s3))
                                                  (Some (int (in_offset s4))))\<rparr>), s4)
                          else Inr (createFn flds initializer None, s4))
                else Inr (createFn flds initializer None, s3)) = Inr (VStruct ps (Some u), s')"
    by (simp add: decodeSlotCount_def split: sum.splits prod.splits)
  from rest have more: "encodedSlots > int ?R"
    by (auto split: if_splits dest: createFn_unrecognized)
  define N where "N = nat encodedSlots"
  from more have N: "encodedSlots = int N" "?R < N" "nat (min encodedSlots (int ?R)) = ?R"
    "nat (encodedSlots - int ?R) = N - ?R"
    by (simp_all add: N_def)
  from rest more obtain s4 where
    t4: "decodeUnused_times P (nat (encodedSlots - int ?R)) s3 = Inr s4"
    and res: "createFn flds initializer
                 (Some \<lparr>fields_token = tok, totalSlots = nat encodedSlots, fields_json = None,
                        fields_bytes = Some (sliceOf (in_buffer s4) (int (in_offset s3))
                                               (Some (int (in_offset s4))))\<rparr>)
              = VStruct ps (Some u)"
    and s4: "s4 = s'"
    by (auto split: sum.splits if_splits dest: createFn_unrecognized)
  from t4 s4 N(4) have t: "decodeUnused_times P (N - ?R) s3 = Inr s'" by simp
  from createFn_unrecognized[OF res] s4 have
    u: "u = \<lparr>fields_token = tok, totalSlots = N, fields_json = None,
                 fields_bytes = Some (sliceOf (in_buffer s') (int (in_offset s3))
                                        (Some (int (in_offset s'))))\<rparr>"
    by (simp add: N_def)
  from res createFn_unrecognized[OF res] have
    c: "VStruct ps (Some u) = createFn flds initializer (Some u)" by simp
  from N(2) have pos: "0 < N - ?R" by simp
  have hl: "in_buffer s2 = in_buffer s1 \<and> in_offset s1 \<le> in_offset s2"
    using h by (auto simp: decodeSlotCount_def split: if_splits sum.splits option.splits
        dest: decodeNumber_le)
  note a = hl decode_le(3)[OF ds] decodeUnused_mono(2)[OF t] decodeUnused_times_strict[OF t pos]
  from a s1 have b: "in_buffer s' = in_buffer s" "in_offset s < in_offset s3"
    "in_offset s3 < in_offset s'" by simp_all
  from r nd h ds t u c b N show ?thesis
    by (intro exI[of _ wire] exI[of _ s1] exI[of _ N] exI[of _ s2] exI[of _ initializer]
        exI[of _ s3]) simp
qed

lemma inv_soia_stream: "inv_stream soia_stream"
  by (simp add: inv_stream_def wf_soia_stream) (simp add: soia_stream_def)

lemma in_first_soia_stream: "in_first soia_stream"
  by (simp add: in_first_def soia_stream_def soia_def)

lemma encode_from_soia:
  assumes "encode P ser v soia_stream = Inr s"
  shows "wf_stream s" and "length (contents s) < 128 \<Longrightarrow>
           out_offset s = length (contents s) \<and> length (buffers s ! out_buffer s) = 128"
proof -
  from grows_encode(1)[OF assms grows_refl[OF inv_soia_stream]]
  have g: "grows soia_stream s" .
  then have i: "inv_stream s" by (rule grows_inv)
  then show "wf_stream s" by (simp add: inv_stream_def)
  assume "length (contents s) < 128"
  with length_contents[OF i] g in_first_soia_stream have "in_first s"
    by (auto simp: grows_def)
  with length_contents[OF i] show
    "out_offset s = length (contents s) \<and> length (buffers s ! out_buffer s) = 128"
    by (simp add: in_first_def bytesWritten_def)
qed


lemma bytesOf_toBytes_Inr:
  assumes "bytesOf (toBytes P ser v) = Inr out"
  shows "\<exists>s. encode P ser v soia_stream = Inr s \<and> contents s = out"
  using assms by (auto simp: toBytes_eq bytesOf_def toBuffer_finalize split: sum.splits)

lemma bytesOf_toBytes_Inl:
  "bytesOf (toBytes P ser v) = Inl e \<longleftrightarrow> encode P ser v soia_stream = Inl e"
  by (auto simp: toBytes_eq bytesOf_def split: sum.splits)

lemma reencode_unrecognized_fits:
  assumes tok: "fields_token u = tok" and fb: "fields_bytes u = Some unknown"
    and e: "encode P (StructSerializerImpl tok rid flds removed)
              (VStruct ps (Some (u\<lparr>fields_bytes := Some []\<rparr>))) soia_stream = Inr s2"
  shows "wf_stream s2"
    and "bytesOf (toBytes P (StructSerializerImpl tok rid flds removed)
                    (VStruct ps (Some (u\<lparr>fields_bytes := Some []\<rparr>)))) = Inr (contents s2)"
    and "out_offset s2 + length unknown \<le> length (buffers s2 ! out_buffer s2) \<Longrightarrow>
           bytesOf (toBytes P (StructSerializerImpl tok rid flds removed) (VStruct ps (Some u)))
           = Inr (contents s2 @ unknown)"
    and "unknown = [] \<Longrightarrow>
           bytesOf (toBytes P (StructSerializerImpl tok rid flds removed) (VStruct ps (Some u)))
           = Inr (contents s2)"
proof -
  note eq = encode_struct_payload[OF tok fb, of P rid flds removed ps soia_stream]
  show w: "wf_stream s2" by (rule encode_from_soia(1)[OF e])
  show "bytesOf (toBytes P (StructSerializerImpl tok rid flds removed)
                    (VStruct ps (Some (u\<lparr>fields_bytes := Some []\<rparr>)))) = Inr (contents s2)"
    by (rule bytesOf_toBytes[OF e])
  from eq e have p: "encode P (StructSerializerImpl tok rid flds removed) (VStruct ps (Some u))
                       soia_stream = Inr (putBytes unknown s2)" by simp
  assume "out_offset s2 + length unknown \<le> length (buffers s2 ! out_buffer s2)"
  from bytesOf_toBytes[OF p] putBytes_fits(2)[OF w this]
  show "bytesOf (toBytes P (StructSerializerImpl tok rid flds removed) (VStruct ps (Some u)))
           = Inr (contents s2 @ unknown)" by simp
next
  note eq = encode_struct_payload[OF tok fb, of P rid flds removed ps soia_stream]
  assume "unknown = []"
  with eq e have "encode P (StructSerializerImpl tok rid flds removed) (VStruct ps (Some u))
                       soia_stream = Inr s2" by (simp add: putBytes_empty)
  from bytesOf_toBytes[OF this]
  show "bytesOf (toBytes P (StructSerializerImpl tok rid flds removed) (VStruct ps (Some u)))
           = Inr (contents s2)" .
qed

lemma reencode_unrecognized_fails:
  assumes tok: "fields_token u = tok" and fb: "fields_bytes u = Some unknown"
    and "bytesOf (toBytes P (StructSerializerImpl tok rid flds removed)
                    (VStruct ps (Some (u\<lparr>fields_bytes := Some []\<rparr>)))) = Inl e"
  shows "bytesOf (toBytes P (StructSerializerImpl tok rid flds removed) (VStruct ps (Some u)))
         = Inl e"
  using assms(3) encode_struct_payload[OF tok fb, of P rid flds removed ps soia_stream]
  by (simp add: bytesOf_toBytes_Inl)

lemma reencode_unrecognized_small:
  assumes tok: "fields_token u = tok" and fb: "fields_bytes u = Some unknown"
    and o: "bytesOf (toBytes P (StructSerializerImpl tok rid flds removed)
                    (VStruct ps (Some (u\<lparr>fields_bytes := Some []\<rparr>)))) = Inr out"
    and len: "length out + length unknown \<le> 128"
  shows "bytesOf (toBytes P (StructSerializerImpl tok rid flds removed) (VStruct ps (Some u)))
         = Inr (out @ unknown)"
proof -
  from bytesOf_toBytes_Inr[OF o] obtain s2 where
    e: "encode P (StructSerializerImpl tok rid flds removed)
          (VStruct ps (Some (u\<lparr>fields_bytes := Some []\<rparr>))) soia_stream = Inr s2"
    and c: "contents s2 = out" by blast
  note f = reencode_unrecognized_fits[OF tok fb e]
  show ?thesis
  proof (cases "unknown = []")
    case True
    from f(4)[OF True] c True show ?thesis by simp
  next
    case False
    with len c have "length (contents s2) < 128" by (cases unknown) simp_all
    from encode_from_soia(2)[OF e this] len c
    have "out_offset s2 + length unknown \<le> length (buffers s2 ! out_buffer s2)" by simp
    from f(3)[OF this] c show ?thesis by simp
  qed
qed




end
